theory Spec2Isabelle
  imports Main "HOL-Library.Char_ord" "HOL-Library.List_Lexorder" "HOL-Library.AList"
begin

section \<open>Data model\<close>

text \<open>
  The driver of \<^verbatim>\<open>pkg/golinters/goanalysis/runner.go\<close> works on three kinds of
  objects: analyzers and packages, which it receives and whose graphs (\<^verbatim>\<open>Requires\<close>,
  \<^verbatim>\<open>Imports\<close>) it only reads, and actions, which it allocates and mutates.

  A Go pointer into the analyzer graph or the package graph is modelled by the value it
  points to: both graphs are acyclic and are not changed while the action graph is built,
  and a node is identified by its \<^verbatim>\<open>Name\<close> (analyzers) or \<^verbatim>\<open>ID\<close> (packages), so
  pointer equality is equality of values. Actions are mutated through shared pointers,
  so they live in an explicit heap (a list of action records; a pointer is an index).
\<close>

datatype reflectType = ReflectType (isPtr: bool) (typeName: string)

text \<open>A value behind an interface (\<^verbatim>\<open>analysis.Fact\<close>, \<^verbatim>\<open>interface{}\<close>): its dynamic type and its content.\<close>

datatype anyValue = AnyValue (dynType: reflectType) (content: string)

type_synonym analysisFact = anyValue

datatype analyzer =
  Analyzer (Name: string) (Requires: "analyzer list") (FactTypes: "reflectType list")
    (RunDespiteErrors: bool) (ResultType: "reflectType option")

text \<open>\<^verbatim>\<open>*types.Package\<close>: the address stands for the pointer's identity.\<close>

datatype typesPackage = TypesPackage (tpAddr: nat) (tpPath: string)

datatype objKind = FuncObj (hasRecv: bool) | VarObj (isField: bool) | TypeNameObj | ConstObj | OtherObj

datatype typesObject =
  TypesObject (objName: string) (objKind: objKind) (objExported: bool) (objPkg: "typesPackage option")

datatype astFile = AstFile (fileName: string) (filePos: nat)

datatype errorKind = UnknownError | ListError | ParseError | TypeError

datatype packagesError = PackagesError (ePos: string) (eMsg: string) (eKind: errorKind)

datatype typesInfo = NewInfo

datatype package =
  Package (ID: string) (PkgPath: string) (PName: string) (Imports: "(string \<times> package) list")
    (ExportFile: string) (CompiledGoFiles: "string list")
    (Types: "typesPackage option") (IllTyped: bool) (Syntax: "astFile list")
    (TypesInfo: "typesInfo option") (Errors: "packagesError list")

record analysisDiagnostic =
  Pos :: nat
  Category :: string
  Message :: string

record pass =
  Files :: "astFile list"
  Pkg :: "typesPackage option"
  ResultOf :: "(analyzer \<times> anyValue option) list"
  ExportObjectFact :: bool
  ExportPackageFact :: bool

type_synonym objectFactKey = "typesObject \<times> reflectType"
type_synonym packageFactKey = "typesPackage option \<times> reflectType"

text \<open>
  The struct \<^verbatim>\<open>action\<close>. The field \<^verbatim>\<open>a\<close> is called \<open>an\<close> here; \<open>deps\<close> holds heap
  indices; the two fact maps are association lists (their order stands for Go's
  unspecified map iteration order); \<open>err\<close> is the error's message; the two callback
  fields of \<open>pass\<close> are \<open>True\<close> while the callback is set. Logging and the
  completion channel carry no state that a claim reads and are left out.
\<close>

record action =
  an :: analyzer
  pkg :: package
  pass :: "pass option"
  isroot :: bool
  isInitialPkg :: bool
  needAnalyzeSource :: bool
  deps :: "nat list"
  objectFacts :: "(objectFactKey \<times> analysisFact) list"
  packageFacts :: "(packageFactKey \<times> analysisFact) list"
  result :: "anyValue option"
  diagnostics :: "analysisDiagnostic list"
  err :: "string option"
  loadCachedFactsDone :: bool
  loadCachedFactsOk :: bool

section \<open>Action graph construction (\<^verbatim>\<open>runner.analyze\<close>, \<^verbatim>\<open>mkAction\<close>)\<close>

record builder =
  actions :: "(analyzer \<times> package) \<rightharpoonup> nat"
  heap :: "action list"

definition newAction :: "(package \<Rightarrow> bool) \<Rightarrow> analyzer \<Rightarrow> package \<Rightarrow> action" where
  "newAction initialPkgs a p =
     \<lparr>an = a, pkg = p, pass = None, isroot = False, isInitialPkg = initialPkgs p,
      needAnalyzeSource = initialPkgs p, deps = [], objectFacts = [], packageFacts = [],
      result = None, diagnostics = [], err = None, loadCachedFactsDone = False,
      loadCachedFactsOk = False\<rparr>"

definition appendDep :: "nat \<Rightarrow> nat \<Rightarrow> builder \<Rightarrow> builder" where
  "appendDep act d st =
     st\<lparr>heap := (heap st)[act := (heap st ! act)\<lparr>deps := deps (heap st ! act) @ [d]\<rparr>]\<rparr>"

definition sortedPaths :: "package \<Rightarrow> string list" where
  "sortedPaths p = sort (remdups (map fst (Imports p)))"

lemma size_import: "map_of (Imports p) path = Some q \<Longrightarrow> size q < size p"
  apply (cases p)
  apply simp
  apply (drule map_of_SomeD)
  apply (drule size_list_estimation'[where f="size_prod (\<lambda>_. 0) size" and y="size q"])
   apply auto
  done

lemma size_analyzer_pos: "0 < size (a :: analyzer)"
  by (cases a) simp

lemma size_requires: "size_list size (Requires a) < size a"
  by (cases a) simp

function mkAction :: "(package \<Rightarrow> bool) \<Rightarrow> analyzer \<Rightarrow> package \<Rightarrow> builder \<Rightarrow> nat \<times> builder"
  and mkRequires :: "(package \<Rightarrow> bool) \<Rightarrow> analyzer list \<Rightarrow> package \<Rightarrow> nat \<Rightarrow> builder \<Rightarrow> builder"
  and mkImports :: "(package \<Rightarrow> bool) \<Rightarrow> analyzer \<Rightarrow> package \<Rightarrow> string list \<Rightarrow> nat \<Rightarrow> builder \<Rightarrow> builder"
where
  "mkAction initialPkgs a p st =
     (case actions st (a, p) of
        Some act \<Rightarrow> (act, st)
      | None \<Rightarrow>
          (let act = length (heap st);
               st0 = st\<lparr>heap := heap st @ [newAction initialPkgs a p]\<rparr>;
               st1 = mkRequires initialPkgs (Requires a) p act st0;
               st2 = (if FactTypes a \<noteq> []
                      then mkImports initialPkgs a p (sortedPaths p) act st1
                      else st1)
           in (act, st2\<lparr>actions := (actions st2)((a, p) \<mapsto> act)\<rparr>)))"
| "mkRequires initialPkgs [] p act st = st"
| "mkRequires initialPkgs (req # reqs) p act st =
     (case mkAction initialPkgs req p st of
        (d, st1) \<Rightarrow> mkRequires initialPkgs reqs p act (appendDep act d st1))"
| "mkImports initialPkgs a p [] act st = st"
| "mkImports initialPkgs a p (path # paths) act st =
     (case map_of (Imports p) path of
        None \<Rightarrow> mkImports initialPkgs a p paths act st
      | Some q \<Rightarrow>
          (case mkAction initialPkgs a q st of
             (d, st1) \<Rightarrow> mkImports initialPkgs a p paths act (appendDep act d st1)))"
  by pat_completeness auto

termination
proof (relation "measures
    [\<lambda>x. case x of
        Inl (I, a, p, st) \<Rightarrow> 2 * (size a + size p)
      | Inr (Inl (I, reqs, p, act, st)) \<Rightarrow> 2 * (size_list size reqs + size p)
      | Inr (Inr (I, a, p, paths, act, st)) \<Rightarrow> 2 * (size a + size p) - 1,
     \<lambda>x. case x of
        Inl _ \<Rightarrow> 0
      | Inr (Inl _) \<Rightarrow> 0
      | Inr (Inr (I, a, p, paths, act, st)) \<Rightarrow> length paths]", goal_cases)
  case 1
  show ?case by simp
next
  case (2 I a p st)
  show ?case using size_requires [of a] by simp
next
  case (3 I a p st)
  show ?case using size_analyzer_pos [of a] by simp
next
  case 4
  show ?case by simp
next
  case 5
  show ?case by simp
next
  case 6
  show ?case by simp
next
  case (7 I a p path paths act st q)
  show ?case using size_import [OF 7(1)] size_analyzer_pos [of a] by (simp; linarith)
next
  case 8
  show ?case by simp
qed



declare mkAction.simps [simp del]

lemma appendDep_heap_length [simp]: "length (heap (appendDep act d st)) = length (heap st)"
  by (simp add: appendDep_def)

lemma appendDep_actions [simp]: "actions (appendDep act d st) = actions st"
  by (simp add: appendDep_def)

lemma appendDep_other: "i \<noteq> act \<Longrightarrow> heap (appendDep act d st) ! i = heap st ! i"
  by (simp add: appendDep_def)

lemma appendDep_self:
  "act < length (heap st) \<Longrightarrow>
   heap (appendDep act d st) ! act = (heap st ! act)\<lparr>deps := deps (heap st ! act) @ [d]\<rparr>"
  by (simp add: appendDep_def)

definition frameOf :: "builder \<Rightarrow> builder \<Rightarrow> bool" where
  "frameOf st st' \<longleftrightarrow>
     length (heap st) \<le> length (heap st') \<and>
     (\<forall>i < length (heap st). heap st' ! i = heap st ! i)"

definition frameExcept :: "nat \<Rightarrow> builder \<Rightarrow> builder \<Rightarrow> bool" where
  "frameExcept act st st' \<longleftrightarrow>
     length (heap st) \<le> length (heap st') \<and>
     (\<forall>i < length (heap st). i \<noteq> act \<longrightarrow> heap st' ! i = heap st ! i) \<and>
     (act < length (heap st) \<longrightarrow>
        (\<exists>ds. heap st' ! act = (heap st ! act)\<lparr>deps := deps (heap st ! act) @ ds\<rparr>))"

lemma frameExcept_refl: "frameExcept act st st"
  by (auto simp: frameExcept_def intro: exI [of _ "[]"])

lemma frameExcept_step:
  assumes "frameOf st st1" "frameExcept act (appendDep act d st1) st2"
  shows "frameExcept act st st2"
  using assms unfolding frameOf_def frameExcept_def
  apply (intro conjI)
    apply simp
   apply (simp add: appendDep_other)
  apply (clarsimp simp: appendDep_self)
  subgoal for ds by (rule exI [of _ "d # ds"]) simp
  done

lemma mk_frame:
  "frameOf st (snd (mkAction I a p st))"
  "frameExcept act st (mkRequires I reqs p act st)"
  "frameExcept act st (mkImports I a p paths act st)"
proof (induction I a p st and I reqs p act st and I a p paths act st
    rule: mkAction_mkRequires_mkImports.induct)
  case (1 I a p st)
  show ?case
  proof (cases "actions st (a, p)")
    case (Some v)
    then show ?thesis by (simp add: mkAction.simps frameOf_def)
  next
    case None
    define act where "act = length (heap st)"
    define st0 where "st0 = st\<lparr>heap := heap st @ [newAction I a p]\<rparr>"
    define st1 where "st1 = mkRequires I (Requires a) p act st0"
    define st2 where "st2 = (if FactTypes a \<noteq> [] then mkImports I a p (sortedPaths p) act st1 else st1)"
    have res: "snd (mkAction I a p st) = st2\<lparr>actions := (actions st2)((a, p) \<mapsto> act)\<rparr>"
      using None by (simp add: mkAction.simps Let_def act_def st0_def st1_def st2_def)
    have f1: "frameExcept act st0 st1"
      using "1.IH"(1) [OF None act_def st0_def] by (simp add: st1_def)
    have f2: "frameExcept act st1 st2"
      using "1.IH"(2) [OF None act_def st0_def st1_def] by (simp add: st2_def frameExcept_refl)
    have "frameOf st st2"
      using f1 f2 unfolding frameOf_def frameExcept_def act_def st0_def
      by (auto simp: nth_append)
    then show ?thesis by (simp add: res frameOf_def)
  qed
next
  case 2
  show ?case by (simp add: frameExcept_refl)
next
  case (3 I req reqs p act st)
  obtain d st1 where m: "mkAction I req p st = (d, st1)" by (cases "mkAction I req p st")
  have "frameOf st st1" using "3.IH"(1) m by simp
  moreover have "frameExcept act (appendDep act d st1) (mkRequires I reqs p act (appendDep act d st1))"
    using "3.IH"(2) m by simp
  ultimately show ?case using m by (simp add: frameExcept_step)
next
  case 4
  show ?case by (simp add: frameExcept_refl)
next
  case (5 I a p path paths act st)
  show ?case
  proof (cases "map_of (Imports p) path")
    case None
    then show ?thesis using "5.IH"(1) by simp
  next
    case (Some q)
    obtain d st1 where m: "mkAction I a q st = (d, st1)" by (cases "mkAction I a q st")
    have "frameOf st st1" using "5.IH"(2) [OF Some] m by simp
    moreover have "frameExcept act (appendDep act d st1) (mkImports I a p paths act (appendDep act d st1))"
      using "5.IH"(3) [OF Some] m by simp
    ultimately show ?thesis using m Some by (simp add: frameExcept_step)
  qed
qed

definition ksize :: "analyzer \<times> package \<Rightarrow> nat" where
  "ksize k = size (fst k) + size (snd k)"

definition mapExt :: "nat \<Rightarrow> builder \<Rightarrow> builder \<Rightarrow> bool" where
  "mapExt b st st' \<longleftrightarrow>
     length (heap st) \<le> length (heap st') \<and>
     actions st \<subseteq>\<^sub>m actions st' \<and>
     (\<forall>k v. actions st k = None \<longrightarrow> actions st' k = Some v \<longrightarrow>
        length (heap st) \<le> v \<and> v < length (heap st') \<and> ksize k < b)"

lemma map_le_Some: "m \<subseteq>\<^sub>m m' \<Longrightarrow> m k = Some w \<Longrightarrow> m' k = Some w"
  by (metis domI map_le_def)

lemma mapExt_refl: "mapExt b st st"
  by (simp add: mapExt_def)

lemma mapExt_new:
  "mapExt b st st' \<Longrightarrow> actions st k = None \<Longrightarrow> actions st' k = Some v \<Longrightarrow>
   length (heap st) \<le> v \<and> v < length (heap st') \<and> ksize k < b"
  unfolding mapExt_def by blast

lemma mapExt_weaken:
  assumes "mapExt b st st'" "b \<le> c"
  shows "mapExt c st st'"
proof -
  have "ksize k < c" if "actions st k = None" "actions st' k = Some v" for k v
    using mapExt_new [OF assms(1) that] assms(2) by simp
  then show ?thesis using assms(1) unfolding mapExt_def by blast
qed

lemma mapExt_trans:
  assumes "mapExt b st st1" "mapExt b st1 st2"
  shows "mapExt b st st2"
proof -
  have le: "length (heap st) \<le> length (heap st1)" "length (heap st1) \<le> length (heap st2)"
    using assms by (simp_all add: mapExt_def)
  have m: "actions st \<subseteq>\<^sub>m actions st1" "actions st1 \<subseteq>\<^sub>m actions st2"
    using assms by (simp_all add: mapExt_def)
  have "actions st \<subseteq>\<^sub>m actions st2" using m by (rule map_le_trans)
  moreover have "length (heap st) \<le> v \<and> v < length (heap st2) \<and> ksize k < b"
    if n: "actions st k = None" and s: "actions st2 k = Some v" for k v
  proof (cases "actions st1 k")
    case None
    then show ?thesis using mapExt_new [OF assms(2) None s] le by simp
  next
    case (Some w)
    then have "actions st2 k = Some w" using m(2) by (rule map_le_Some [rotated])
    then have "w = v" using s by simp
    then show ?thesis using mapExt_new [OF assms(1) n] Some le by simp
  qed
  ultimately show ?thesis using le by (simp add: mapExt_def)
qed

lemma mapExt_appendDep: "mapExt b (appendDep act d st1) st2 \<Longrightarrow> mapExt b st1 st2"
  by (simp add: mapExt_def)

lemma mk_map:
  "mapExt (Suc (size a + size p)) st (snd (mkAction I a p st)) \<and>
   actions (snd (mkAction I a p st)) (a, p) = Some (fst (mkAction I a p st))"
  "mapExt (size_list size reqs + size p) st (mkRequires I reqs p act st)"
  "mapExt (size a + size p) st (mkImports I a p paths act st)"
proof (induction I a p st and I reqs p act st and I a p paths act st
    rule: mkAction_mkRequires_mkImports.induct)
  case (1 I a p st)
  show ?case
  proof (cases "actions st (a, p)")
    case (Some v)
    then show ?thesis by (simp add: mkAction.simps mapExt_refl)
  next
    case None
    define act where "act = length (heap st)"
    define st0 where "st0 = st\<lparr>heap := heap st @ [newAction I a p]\<rparr>"
    define st1 where "st1 = mkRequires I (Requires a) p act st0"
    define st2 where "st2 = (if FactTypes a \<noteq> [] then mkImports I a p (sortedPaths p) act st1 else st1)"
    have res: "mkAction I a p st = (act, st2\<lparr>actions := (actions st2)((a, p) \<mapsto> act)\<rparr>)"
      using None by (simp add: mkAction.simps Let_def act_def st0_def st1_def st2_def)
    have "mapExt (size_list size (Requires a) + size p) st0 st1"
      using "1.IH"(1) [OF None act_def st0_def] by (simp add: st1_def)
    then have e1: "mapExt (size a + size p) st0 st1"
      using size_requires [of a] by (auto elim: mapExt_weaken)
    have e2: "mapExt (size a + size p) st1 st2"
      using "1.IH"(2) [OF None act_def st0_def st1_def] by (simp add: st2_def mapExt_refl)
    have e02: "mapExt (size a + size p) st0 st2" using e1 e2 by (rule mapExt_trans)
    have e0: "actions st0 = actions st" "length (heap st0) = Suc act"
      by (simp_all add: st0_def act_def)
    have absent: "actions st2 (a, p) = None"
    proof (cases "actions st2 (a, p)")
      case (Some v)
      then have "ksize (a, p) < size a + size p"
        using mapExt_new [OF e02, of "(a, p)"] None e0 by simp
      then show ?thesis by (simp add: ksize_def)
    qed simp
    have "mapExt (Suc (size a + size p)) st (st2\<lparr>actions := (actions st2)((a, p) \<mapsto> act)\<rparr>)"
      unfolding mapExt_def
    proof (intro conjI allI impI)
      show "length (heap st) \<le> length (heap (st2\<lparr>actions := (actions st2)((a, p) \<mapsto> act)\<rparr>))"
        using e02 e0 by (simp add: mapExt_def act_def)
      show "actions st \<subseteq>\<^sub>m actions (st2\<lparr>actions := (actions st2)((a, p) \<mapsto> act)\<rparr>)"
        using e02 e0 absent None by (auto simp: mapExt_def map_le_def dom_def)
    next
      fix k v
      assume n: "actions st k = None"
        and s: "actions (st2\<lparr>actions := (actions st2)((a, p) \<mapsto> act)\<rparr>) k = Some v"
      have l2: "Suc act \<le> length (heap st2)" using e02 e0 by (simp add: mapExt_def)
      have "length (heap st) \<le> v \<and> v < length (heap st2) \<and> ksize k < Suc (size a + size p)"
      proof (cases "k = (a, p)")
        case True
        then show ?thesis using s l2 by (simp add: act_def ksize_def)
      next
        case False
        then have "actions st2 k = Some v" using s by simp
        then show ?thesis using mapExt_new [OF e02, of k v] n e0 by (simp add: act_def)
      qed
      then show "length (heap st) \<le> v"
        and "v < length (heap (st2\<lparr>actions := (actions st2)((a, p) \<mapsto> act)\<rparr>))"
        and "ksize k < Suc (size a + size p)" by simp_all
    qed
    then show ?thesis by (simp add: res)
  qed
next
  case 2
  show ?case by (simp add: mapExt_refl)
next
  case (3 I req reqs p act st)
  obtain d st1 where m: "mkAction I req p st = (d, st1)" by (cases "mkAction I req p st")
  have "mapExt (Suc (size req + size p)) st st1" using "3.IH"(1) m by simp
  then have a: "mapExt (size_list size (req # reqs) + size p) st st1"
    by (auto elim: mapExt_weaken)
  have "mapExt (size_list size reqs + size p) (appendDep act d st1) (mkRequires I reqs p act (appendDep act d st1))"
    using "3.IH"(2) m by simp
  then have "mapExt (size_list size reqs + size p) st1 (mkRequires I reqs p act (appendDep act d st1))"
    by (rule mapExt_appendDep)
  then have "mapExt (size_list size (req # reqs) + size p) st1 (mkRequires I reqs p act (appendDep act d st1))"
    by (rule mapExt_weaken) simp
  with a show ?case using m by (simp add: mapExt_trans)
next
  case 4
  show ?case by (simp add: mapExt_refl)
next
  case (5 I a p path paths act st)
  show ?case
  proof (cases "map_of (Imports p) path")
    case None
    then show ?thesis using "5.IH"(1) by simp
  next
    case (Some q)
    obtain d st1 where m: "mkAction I a q st = (d, st1)" by (cases "mkAction I a q st")
    have "mapExt (Suc (size a + size q)) st st1" using "5.IH"(2) [OF Some] m by simp
    then have a: "mapExt (size a + size p) st st1"
      using size_import [OF Some] by (auto elim: mapExt_weaken)
    have "mapExt (size a + size p) (appendDep act d st1) (mkImports I a p paths act (appendDep act d st1))"
      using "5.IH"(3) [OF Some] m by simp
    then have "mapExt (size a + size p) st1 (mkImports I a p paths act (appendDep act d st1))"
      by (rule mapExt_appendDep)
    with a show ?thesis using m Some by (simp add: mapExt_trans)
  qed
qed

definition reqDeps :: "builder \<Rightarrow> package \<Rightarrow> nat list \<Rightarrow> analyzer list \<Rightarrow> bool" where
  "reqDeps st p ds reqs = list_all2 (\<lambda>d r. actions st (r, p) = Some d) ds reqs"

definition impDeps :: "builder \<Rightarrow> analyzer \<Rightarrow> package \<Rightarrow> nat list \<Rightarrow> string list \<Rightarrow> bool" where
  "impDeps st a p ds paths =
     list_all2 (\<lambda>d path. \<exists>q. map_of (Imports p) path = Some q \<and> actions st (a, q) = Some d) ds paths"

definition depsOK :: "builder \<Rightarrow> analyzer \<Rightarrow> package \<Rightarrow> nat \<Rightarrow> bool" where
  "depsOK st a p v \<longleftrightarrow>
     (\<exists>ds1 ds2. deps (heap st ! v) = ds1 @ ds2 \<and> reqDeps st p ds1 (Requires a) \<and>
        (if FactTypes a \<noteq> [] then impDeps st a p ds2 (sortedPaths p) else ds2 = []))"

definition wfB :: "builder \<Rightarrow> bool" where
  "wfB st \<longleftrightarrow>
     (\<forall>a p v. actions st (a, p) = Some v \<longrightarrow>
        v < length (heap st) \<and> an (heap st ! v) = a \<and> pkg (heap st ! v) = p \<and> depsOK st a p v)"

lemma reqDeps_mono: "reqDeps st p ds reqs \<Longrightarrow> actions st \<subseteq>\<^sub>m actions st' \<Longrightarrow> reqDeps st' p ds reqs"
  unfolding reqDeps_def by (erule list_all2_mono) (erule map_le_Some)

lemma impDeps_mono:
  "impDeps st a p ds paths \<Longrightarrow> actions st \<subseteq>\<^sub>m actions st' \<Longrightarrow> impDeps st' a p ds paths"
  unfolding impDeps_def by (erule list_all2_mono) (blast intro: map_le_Some)

lemma depsOK_mono:
  assumes "depsOK st a p v" "deps (heap st' ! v) = deps (heap st ! v)" "actions st \<subseteq>\<^sub>m actions st'"
  shows "depsOK st' a p v"
  using assms unfolding depsOK_def
  by (auto split: if_splits intro: reqDeps_mono impDeps_mono)

lemma wfB_same_map:
  assumes "wfB st" "actions st' = actions st" "length (heap st) \<le> length (heap st')"
    and "\<And>v. v \<in> ran (actions st) \<Longrightarrow>
           an (heap st' ! v) = an (heap st ! v) \<and> pkg (heap st' ! v) = pkg (heap st ! v) \<and>
           deps (heap st' ! v) = deps (heap st ! v)"
  shows "wfB st'"
  unfolding wfB_def
proof (intro allI impI)
  fix a p v
  assume s: "actions st' (a, p) = Some v"
  then have s0: "actions st (a, p) = Some v" using assms(2) by simp
  then have r: "v \<in> ran (actions st)" by (auto simp: ran_def)
  note h = assms(4) [OF r]
  have w: "v < length (heap st) \<and> an (heap st ! v) = a \<and> pkg (heap st ! v) = p \<and> depsOK st a p v"
    using assms(1) s0 unfolding wfB_def by blast
  then have "depsOK st' a p v" using depsOK_mono [of st a p v st'] h assms(2) by simp
  then show "v < length (heap st') \<and> an (heap st' ! v) = a \<and> pkg (heap st' ! v) = p \<and> depsOK st' a p v"
    using w h assms(3) by simp
qed

lemma wfB_ran_bound: "wfB st \<Longrightarrow> v \<in> ran (actions st) \<Longrightarrow> v < length (heap st)"
  unfolding wfB_def ran_def by auto

lemma mapExt_not_ran:
  assumes "mapExt b st st'" "act < length (heap st)" "act \<notin> ran (actions st)"
  shows "act \<notin> ran (actions st')"
proof
  assume "act \<in> ran (actions st')"
  then obtain k where k: "actions st' k = Some act" by (auto simp: ran_def)
  show False
  proof (cases "actions st k")
    case None
    then show False using mapExt_new [OF assms(1) None k] assms(2) by simp
  next
    case (Some w)
    then have "actions st' k = Some w" using assms(1) by (auto simp: mapExt_def intro: map_le_Some)
    then have "w = act" using k by simp
    then have "act \<in> ran (actions st)" using Some by (blast intro: ranI)
    then show False using assms(3) by simp
  qed
qed

lemma wfB_appendDep:
  assumes "wfB st" "act \<notin> ran (actions st)"
  shows "wfB (appendDep act d st)"
proof (rule wfB_same_map [OF assms(1)])
  fix v assume "v \<in> ran (actions st)"
  then have "v \<noteq> act" using assms(2) by auto
  then show "an (heap (appendDep act d st) ! v) = an (heap st ! v) \<and>
      pkg (heap (appendDep act d st) ! v) = pkg (heap st ! v) \<and>
      deps (heap (appendDep act d st) ! v) = deps (heap st ! v)" by (simp add: appendDep_other)
qed simp_all

lemma mk_wf:
  "wfB st \<Longrightarrow> wfB (snd (mkAction I a p st))"
  "wfB st \<Longrightarrow> act < length (heap st) \<Longrightarrow> act \<notin> ran (actions st) \<Longrightarrow>
     wfB (mkRequires I reqs p act st) \<and> act \<notin> ran (actions (mkRequires I reqs p act st)) \<and>
     (\<exists>ds. deps (heap (mkRequires I reqs p act st) ! act) = deps (heap st ! act) @ ds \<and>
        reqDeps (mkRequires I reqs p act st) p ds reqs)"
  "wfB st \<Longrightarrow> act < length (heap st) \<Longrightarrow> act \<notin> ran (actions st) \<Longrightarrow>
   set paths \<subseteq> fst ` set (Imports p) \<Longrightarrow>
     wfB (mkImports I a p paths act st) \<and> act \<notin> ran (actions (mkImports I a p paths act st)) \<and>
     (\<exists>ds. deps (heap (mkImports I a p paths act st) ! act) = deps (heap st ! act) @ ds \<and>
        impDeps (mkImports I a p paths act st) a p ds paths)"
proof (induction I a p st and I reqs p act st and I a p paths act st
    rule: mkAction_mkRequires_mkImports.induct)
  case (1 I a p st)
  show ?case
  proof (cases "actions st (a, p)")
    case (Some v)
    then show ?thesis using "1.prems" by (simp add: mkAction.simps)
  next
    case None
    define act where "act = length (heap st)"
    define st0 where "st0 = st\<lparr>heap := heap st @ [newAction I a p]\<rparr>"
    define st1 where "st1 = mkRequires I (Requires a) p act st0"
    define st2 where "st2 = (if FactTypes a \<noteq> [] then mkImports I a p (sortedPaths p) act st1 else st1)"
    define st3 where "st3 = st2\<lparr>actions := (actions st2)((a, p) \<mapsto> act)\<rparr>"
    have res: "mkAction I a p st = (act, st3)"
      using None by (simp add: mkAction.simps Let_def act_def st0_def st1_def st2_def st3_def)
    have e0: "actions st0 = actions st" "length (heap st0) = Suc act" "heap st0 ! act = newAction I a p"
      by (simp_all add: st0_def act_def)
    have w0: "wfB st0"
    proof (rule wfB_same_map [OF "1.prems"])
      fix v assume "v \<in> ran (actions st)"
      then have "v < length (heap st)" using "1.prems" by (rule wfB_ran_bound [rotated])
      then show "an (heap st0 ! v) = an (heap st ! v) \<and> pkg (heap st0 ! v) = pkg (heap st ! v) \<and>
        deps (heap st0 ! v) = deps (heap st ! v)" by (simp add: st0_def nth_append)
    qed (simp_all add: st0_def)
    have a0: "act < length (heap st0)" using e0 by simp
    have r0: "act \<notin> ran (actions st0)"
      using wfB_ran_bound [OF "1.prems", of act] e0 by (auto simp: act_def)
    note ih1 = "1.IH"(1) [OF None act_def st0_def w0 a0 r0, folded st1_def]
    then obtain ds1 where w1: "wfB st1" and r1: "act \<notin> ran (actions st1)"
      and d1: "deps (heap st1 ! act) = deps (heap st0 ! act) @ ds1" "reqDeps st1 p ds1 (Requires a)"
      by blast
    have f1: "frameExcept act st0 st1" unfolding st1_def by (rule mk_frame(2))
    have m1: "mapExt (size_list size (Requires a) + size p) st0 st1" unfolding st1_def by (rule mk_map(2))
    have a1: "act < length (heap st1)" using f1 a0 by (simp add: frameExcept_def)
    have f2: "frameExcept act st1 st2" unfolding st2_def by (simp add: mk_frame(3) frameExcept_refl)
    have m2: "mapExt (size a + size p) st1 st2" unfolding st2_def by (simp add: mk_map(3) mapExt_refl)
    have a2: "act < length (heap st2)" using f2 a1 by (simp add: frameExcept_def)
    have sp: "set (sortedPaths p) \<subseteq> fst ` set (Imports p)" by (simp add: sortedPaths_def)
    have "wfB st2 \<and> act \<notin> ran (actions st2) \<and>
      (\<exists>ds2. deps (heap st2 ! act) = deps (heap st1 ! act) @ ds2 \<and>
         (if FactTypes a \<noteq> [] then impDeps st2 a p ds2 (sortedPaths p) else ds2 = []))"
    proof (cases "FactTypes a \<noteq> []")
      case True
      show ?thesis
        using "1.IH"(2) [OF None act_def st0_def st1_def True w1 a1 r1 sp] True
        by (simp add: st2_def)
    next
      case False
      then show ?thesis using w1 r1 by (simp add: st2_def)
    qed
    then obtain ds2 where w2: "wfB st2" and r2: "act \<notin> ran (actions st2)"
      and d2: "deps (heap st2 ! act) = deps (heap st1 ! act) @ ds2"
        "if FactTypes a \<noteq> [] then impDeps st2 a p ds2 (sortedPaths p) else ds2 = []"
      by blast
    have "mapExt (size a + size p) st0 st1"
      using m1 by (rule mapExt_weaken) (use size_requires [of a] in simp)
    then have m02: "mapExt (size a + size p) st0 st2" using m2 by (rule mapExt_trans)
    have absent: "actions st2 (a, p) = None"
    proof (cases "actions st2 (a, p)")
      case (Some v)
      then have "ksize (a, p) < size a + size p"
        using mapExt_new [OF m02, of "(a, p)"] None e0 by simp
      then show ?thesis by (simp add: ksize_def)
    qed simp
    have le23: "actions st2 \<subseteq>\<^sub>m actions st3"
      using absent by (auto simp: st3_def map_le_def)
    have h3: "heap st3 = heap st2" by (simp add: st3_def)
    have cell: "an (heap st2 ! act) = a" "pkg (heap st2 ! act) = p"
      using f1 f2 a0 a1 e0 unfolding frameExcept_def by (auto simp: newAction_def)
    have dall: "deps (heap st2 ! act) = ds1 @ ds2"
      using d1 d2 e0 by (simp add: newAction_def)
    have dk: "depsOK st3 a p act"
      unfolding depsOK_def
    proof (intro exI conjI)
      show "deps (heap st3 ! act) = ds1 @ ds2" using dall h3 by simp
      show "reqDeps st3 p ds1 (Requires a)"
        using d1(2) m2 le23 by (auto simp: mapExt_def intro: reqDeps_mono)
      show "if FactTypes a \<noteq> [] then impDeps st3 a p ds2 (sortedPaths p) else ds2 = []"
        using d2(2) le23 by (auto split: if_splits intro: impDeps_mono)
    qed
    have "wfB st3"
      unfolding wfB_def
    proof (intro allI impI)
      fix b q v
      assume s: "actions st3 (b, q) = Some v"
      show "v < length (heap st3) \<and> an (heap st3 ! v) = b \<and> pkg (heap st3 ! v) = q \<and> depsOK st3 b q v"
      proof (cases "(b, q) = (a, p)")
        case True
        then have "v = act" using s by (simp add: st3_def)
        then show ?thesis using True a2 cell dk h3 by simp
      next
        case False
        then have s2: "actions st2 (b, q) = Some v" using s by (auto simp: st3_def split: if_splits)
        then have "v < length (heap st2) \<and> an (heap st2 ! v) = b \<and> pkg (heap st2 ! v) = q \<and> depsOK st2 b q v"
          using w2 unfolding wfB_def by blast
        then show ?thesis using h3 le23 depsOK_mono [of st2 b q v st3] by simp
      qed
    qed
    then show ?thesis by (simp add: res)
  qed
next
  case 2
  then show ?case by (simp add: reqDeps_def)
next
  case (3 I req reqs p act st)
  obtain d st1 where m: "mkAction I req p st = (d, st1)" by (cases "mkAction I req p st")
  define st1' where "st1' = appendDep act d st1"
  define st' where "st' = mkRequires I reqs p act st1'"
  have res: "mkRequires I (req # reqs) p act st = st'" using m by (simp add: st'_def st1'_def)
  have w1: "wfB st1" using "3.IH"(1) [OF "3.prems"(1)] m by simp
  have f1: "frameOf st st1" using mk_frame(1) [of st I req p] m by simp
  have m1: "mapExt (Suc (size req + size p)) st st1" "actions st1 (req, p) = Some d"
    using mk_map(1) [of req p st I] m by simp_all
  have a1: "act < length (heap st1)" using f1 "3.prems"(2) by (simp add: frameOf_def)
  have r1: "act \<notin> ran (actions st1)" using mapExt_not_ran [OF m1(1) "3.prems"(2,3)] .
  have w1': "wfB st1'" unfolding st1'_def using w1 r1 by (rule wfB_appendDep)
  have a1': "act < length (heap st1')" using a1 by (simp add: st1'_def)
  have r1': "act \<notin> ran (actions st1')" using r1 by (simp add: st1'_def)
  have "wfB st' \<and> act \<notin> ran (actions st') \<and>
     (\<exists>ds. deps (heap st' ! act) = deps (heap st1' ! act) @ ds \<and> reqDeps st' p ds reqs)"
    using "3.IH"(2) [OF m [symmetric] w1' [unfolded st1'_def] a1' [unfolded st1'_def] r1' [unfolded st1'_def]]
    by (simp add: st'_def st1'_def)
  then obtain ds where w': "wfB st'" and r': "act \<notin> ran (actions st')"
    and d': "deps (heap st' ! act) = deps (heap st1' ! act) @ ds" "reqDeps st' p ds reqs" by blast
  have "deps (heap st1' ! act) = deps (heap st ! act) @ [d]"
    using f1 a1 "3.prems"(2) by (simp add: st1'_def appendDep_self frameOf_def)
  then have dd: "deps (heap st' ! act) = deps (heap st ! act) @ (d # ds)" using d'(1) by simp
  have "mapExt (size_list size reqs + size p) st1' st'" unfolding st'_def by (rule mk_map(2))
  then have "actions st1 \<subseteq>\<^sub>m actions st'" by (simp add: mapExt_def st1'_def)
  then have "actions st' (req, p) = Some d" using m1(2) by (rule map_le_Some)
  then have "reqDeps st' p (d # ds) (req # reqs)" using d'(2) by (simp add: reqDeps_def)
  then show ?case using w' r' dd unfolding res by blast
next
  case 4
  then show ?case by (simp add: impDeps_def)
next
  case (5 I a p path paths act st)
  from "5.prems"(4) obtain q where q: "map_of (Imports p) path = Some q"
    by (cases "map_of (Imports p) path") (auto simp: map_of_eq_None_iff)
  have sub: "set paths \<subseteq> fst ` set (Imports p)" using "5.prems"(4) by simp
  obtain d st1 where m: "mkAction I a q st = (d, st1)" by (cases "mkAction I a q st")
  define st1' where "st1' = appendDep act d st1"
  define st' where "st' = mkImports I a p paths act st1'"
  have res: "mkImports I a p (path # paths) act st = st'" using m q by (simp add: st'_def st1'_def)
  have w1: "wfB st1" using "5.IH"(2) [OF q "5.prems"(1)] m by simp
  have f1: "frameOf st st1" using mk_frame(1) [of st I a q] m by simp
  have m1: "mapExt (Suc (size a + size q)) st st1" "actions st1 (a, q) = Some d"
    using mk_map(1) [of a q st I] m by simp_all
  have a1: "act < length (heap st1)" using f1 "5.prems"(2) by (simp add: frameOf_def)
  have r1: "act \<notin> ran (actions st1)" using mapExt_not_ran [OF m1(1) "5.prems"(2,3)] .
  have w1': "wfB st1'" unfolding st1'_def using w1 r1 by (rule wfB_appendDep)
  have a1': "act < length (heap st1')" using a1 by (simp add: st1'_def)
  have r1': "act \<notin> ran (actions st1')" using r1 by (simp add: st1'_def)
  have "wfB st' \<and> act \<notin> ran (actions st') \<and>
     (\<exists>ds. deps (heap st' ! act) = deps (heap st1' ! act) @ ds \<and> impDeps st' a p ds paths)"
    using "5.IH"(3) [OF q m [symmetric] w1' [unfolded st1'_def] a1' [unfolded st1'_def] r1' [unfolded st1'_def] sub]
    by (simp add: st'_def st1'_def)
  then obtain ds where w': "wfB st'" and r': "act \<notin> ran (actions st')"
    and d': "deps (heap st' ! act) = deps (heap st1' ! act) @ ds" "impDeps st' a p ds paths" by blast
  have "deps (heap st1' ! act) = deps (heap st ! act) @ [d]"
    using f1 a1 "5.prems"(2) by (simp add: st1'_def appendDep_self frameOf_def)
  then have dd: "deps (heap st' ! act) = deps (heap st ! act) @ (d # ds)" using d'(1) by simp
  have "mapExt (size a + size p) st1' st'" unfolding st'_def by (rule mk_map(3))
  then have "actions st1 \<subseteq>\<^sub>m actions st'" by (simp add: mapExt_def st1'_def)
  then have "actions st' (a, q) = Some d" using m1(2) by (rule map_le_Some)
  then have "impDeps st' a p (d # ds) (path # paths)" using d'(2) q by (simp add: impDeps_def)
  then show ?case using w' r' dd unfolding res by blast
qed

definition setRoot :: "nat \<Rightarrow> builder \<Rightarrow> builder" where
  "setRoot root st = st\<lparr>heap := (heap st)[root := (heap st ! root)\<lparr>isroot := True\<rparr>]\<rparr>"

fun mkRoots :: "(package \<Rightarrow> bool) \<Rightarrow> analyzer \<Rightarrow> package list \<Rightarrow> nat list \<times> builder \<Rightarrow> nat list \<times> builder" where
  "mkRoots initialPkgs a [] rs = rs"
| "mkRoots initialPkgs a (p # pkgs) (roots, st) =
     (case mkAction initialPkgs a p st of
        (root, st1) \<Rightarrow> mkRoots initialPkgs a pkgs (roots @ [root], setRoot root st1))"

fun mkAllRoots :: "(package \<Rightarrow> bool) \<Rightarrow> analyzer list \<Rightarrow> package list \<Rightarrow> nat list \<times> builder \<Rightarrow> nat list \<times> builder" where
  "mkAllRoots initialPkgs [] pkgs rs = rs"
| "mkAllRoots initialPkgs (a # analyzers) pkgs rs =
     mkAllRoots initialPkgs analyzers pkgs (mkRoots initialPkgs a pkgs rs)"

definition buildGraph :: "analyzer list \<Rightarrow> package list \<Rightarrow> nat list \<times> builder" where
  "buildGraph analyzers pkgs =
     mkAllRoots (\<lambda>p. p \<in> set pkgs) analyzers pkgs ([], \<lparr>actions = Map.empty, heap = []\<rparr>)"

lemma wfB_empty: "wfB \<lparr>actions = Map.empty, heap = []\<rparr>"
  by (simp add: wfB_def)


lemma setRoot_actions [simp]: "actions (setRoot r st) = actions st"
  by (simp add: setRoot_def)

lemma setRoot_length [simp]: "length (heap (setRoot r st)) = length (heap st)"
  by (simp add: setRoot_def)

lemma setRoot_cell:
  "an (heap (setRoot r st) ! v) = an (heap st ! v) \<and>
   pkg (heap (setRoot r st) ! v) = pkg (heap st ! v) \<and>
   deps (heap (setRoot r st) ! v) = deps (heap st ! v)"
proof (cases "v = r \<and> r < length (heap st)")
  case True
  then show ?thesis by (simp add: setRoot_def)
next
  case False
  then have "(heap st)[r := (heap st ! r)\<lparr>isroot := True\<rparr>] ! v = heap st ! v"
    by (cases "v = r") (simp_all add: list_update_beyond)
  then show ?thesis by (simp add: setRoot_def)
qed

lemma wfB_setRoot: "wfB st \<Longrightarrow> wfB (setRoot r st)"
  by (erule wfB_same_map) (simp_all add: setRoot_cell)

lemma wfB_mkRoots: "wfB (snd rs) \<Longrightarrow> wfB (snd (mkRoots I a pkgs rs))"
proof (induction I a pkgs rs rule: mkRoots.induct)
  case (2 I a p pkgs roots st)
  obtain root st1 where m: "mkAction I a p st = (root, st1)" by (cases "mkAction I a p st")
  have "wfB st1" using mk_wf(1) [of st I a p] "2.prems" m by simp
  then have "wfB (setRoot root st1)" by (rule wfB_setRoot)
  then show ?case using "2.IH" [OF m [symmetric]] m by simp
qed simp

lemma wfB_mkAllRoots: "wfB (snd rs) \<Longrightarrow> wfB (snd (mkAllRoots I analyzers pkgs rs))"
  by (induction I analyzers pkgs rs rule: mkAllRoots.induct) (simp_all add: wfB_mkRoots)

lemma wfB_buildGraph: "wfB (snd (buildGraph analyzers pkgs))"
  unfolding buildGraph_def by (rule wfB_mkAllRoots) (simp add: wfB_empty)

lemma list_all2_nthD2:
  "list_all2 P xs ys \<Longrightarrow> y \<in> set ys \<Longrightarrow> \<exists>x \<in> set xs. P x y"
  by (induction rule: list_all2_induct) auto

lemma wfB_import_deps:
  assumes w: "wfB st" and s: "actions st (a, p) = Some act" and f: "FactTypes a \<noteq> []"
  shows "list_all2 (\<lambda>d path. \<exists>q. map_of (Imports p) path = Some q \<and> actions st (a, q) = Some d)
           (drop (length (Requires a)) (deps (heap st ! act))) (sortedPaths p)"
proof -
  from w s have "depsOK st a p act" unfolding wfB_def by blast
  then obtain ds1 ds2 where d: "deps (heap st ! act) = ds1 @ ds2" "reqDeps st p ds1 (Requires a)"
    "impDeps st a p ds2 (sortedPaths p)" using f unfolding depsOK_def by auto
  have "length ds1 = length (Requires a)" using d(2) unfolding reqDeps_def by (rule list_all2_lengthD)
  then have "drop (length (Requires a)) (deps (heap st ! act)) = ds2" using d(1) by simp
  then show ?thesis using d(3) by (simp add: impDeps_def)
qed

text \<open>
  Claim C1. In the graph that \<^verbatim>\<open>analyze\<close> builds, every action \<open>(a, p)\<close> whose
  analyzer declares a fact type has, for every direct import \<open>q\<close> of \<open>p\<close>, an action
  \<open>(a, q)\<close> among its dependencies; the dependencies that follow those for
  \<open>Requires a\<close> are exactly the actions of the imports, one per import path, in
  ascending order of the path.
\<close>

theorem mkAction_fact_imports:
  assumes "actions (snd (buildGraph analyzers pkgs)) (a, p) = Some act" and "FactTypes a \<noteq> []"
  shows "(\<forall>path q. map_of (Imports p) path = Some q \<longrightarrow>
            (\<exists>d. actions (snd (buildGraph analyzers pkgs)) (a, q) = Some d \<and>
                 d \<in> set (deps (heap (snd (buildGraph analyzers pkgs)) ! act)) \<and>
                 an (heap (snd (buildGraph analyzers pkgs)) ! d) = a \<and>
                 pkg (heap (snd (buildGraph analyzers pkgs)) ! d) = q)) \<and>
         list_all2 (\<lambda>d path. \<exists>q. map_of (Imports p) path = Some q \<and>
                      actions (snd (buildGraph analyzers pkgs)) (a, q) = Some d)
           (drop (length (Requires a)) (deps (heap (snd (buildGraph analyzers pkgs)) ! act)))
           (sortedPaths p) \<and>
         sorted (sortedPaths p) \<and> distinct (sortedPaths p) \<and>
         set (sortedPaths p) = fst ` set (Imports p)"
proof -
  define G where "G = snd (buildGraph analyzers pkgs)"
  have w: "wfB G" unfolding G_def by (rule wfB_buildGraph)
  have s: "actions G (a, p) = Some act" using assms(1) by (simp add: G_def)
  note l = wfB_import_deps [OF w s assms(2)]
  have "\<exists>d. actions G (a, q) = Some d \<and> d \<in> set (deps (heap G ! act)) \<and>
          an (heap G ! d) = a \<and> pkg (heap G ! d) = q"
    if m: "map_of (Imports p) path = Some q" for path q
  proof -
    have "path \<in> set (sortedPaths p)"
      using map_of_SomeD [OF m] by (force simp: sortedPaths_def)
    from list_all2_nthD2 [OF l this]
    obtain d where d: "d \<in> set (drop (length (Requires a)) (deps (heap G ! act)))"
      "actions G (a, q) = Some d" using m by auto
    have "d \<in> set (deps (heap G ! act))" using d(1) by (rule in_set_dropD)
    moreover have "an (heap G ! d) = a \<and> pkg (heap G ! d) = q"
      using w d(2) unfolding wfB_def by blast
    ultimately show ?thesis using d(2) by blast
  qed
  then show ?thesis using l unfolding G_def by (simp add: sortedPaths_def)
qed

text \<open>Example values: a fact-declaring analyzer and a package with two imports.\<close>

abbreviation exPkg :: "string \<Rightarrow> (string \<times> package) list \<Rightarrow> package" where
  "exPkg i imps \<equiv> Package i i i imps [] [] None False [] None []"

abbreviation exFactAnalyzer :: analyzer where
  "exFactAnalyzer \<equiv> Analyzer ''F'' [] [ReflectType True ''*F.fact''] False None"

abbreviation exRoot :: package where
  "exRoot \<equiv> exPkg ''root'' [(''b/mid'', exPkg ''mid'' []), (''a/leaf'', exPkg ''leaf'' [])]"

theorem mkAction_fact_imports_witness:
  "actions (snd (buildGraph [exFactAnalyzer] [exRoot])) (exFactAnalyzer, exRoot) = Some 0 \<and>
   FactTypes exFactAnalyzer \<noteq> [] \<and>
   sortedPaths exRoot = [''a/leaf'', ''b/mid''] \<and>
   deps (heap (snd (buildGraph [exFactAnalyzer] [exRoot])) ! 0) = [1, 2] \<and>
   actions (snd (buildGraph [exFactAnalyzer] [exRoot])) (exFactAnalyzer, exPkg ''leaf'' []) = Some 1 \<and>
   actions (snd (buildGraph [exFactAnalyzer] [exRoot])) (exFactAnalyzer, exPkg ''mid'' []) = Some 2 \<and>
   list_all2 (\<lambda>d path. \<exists>q. map_of (Imports exRoot) path = Some q \<and>
                actions (snd (buildGraph [exFactAnalyzer] [exRoot])) (exFactAnalyzer, q) = Some d)
     (drop (length (Requires exFactAnalyzer))
        (deps (heap (snd (buildGraph [exFactAnalyzer] [exRoot])) ! 0)))
     (sortedPaths exRoot)"
proof -
  have h1: "actions (snd (buildGraph [exFactAnalyzer] [exRoot])) (exFactAnalyzer, exRoot) = Some 0"
    by code_simp
  have h2: "FactTypes exFactAnalyzer \<noteq> []" by simp
  have h3: "sortedPaths exRoot = [''a/leaf'', ''b/mid'']" by code_simp
  have h4: "deps (heap (snd (buildGraph [exFactAnalyzer] [exRoot])) ! 0) = [1, 2]" by code_simp
  have h5: "actions (snd (buildGraph [exFactAnalyzer] [exRoot])) (exFactAnalyzer, exPkg ''leaf'' []) = Some 1"
    by code_simp
  have h6: "actions (snd (buildGraph [exFactAnalyzer] [exRoot])) (exFactAnalyzer, exPkg ''mid'' []) = Some 2"
    by code_simp
  from mkAction_fact_imports [OF h1 h2] h1 h2 h3 h4 h5 h6 show ?thesis by blast
qed



lemma mkAction_bound: "actions st (a, p) = Some v \<Longrightarrow> mkAction I a p st = (v, st)"
  by (simp add: mkAction.simps)

lemma mkAction_map_le: "actions st \<subseteq>\<^sub>m actions (snd (mkAction I a p st))"
  using mk_map(1) [of a p st I] by (simp add: mapExt_def)

lemma mkAction_binds: "actions (snd (mkAction I a p st)) (a, p) = Some (fst (mkAction I a p st))"
  using mk_map(1) [of a p st I] by simp

lemma mkRoots_roots:
  "actions (snd rs) \<subseteq>\<^sub>m actions (snd (mkRoots I a pkgs rs)) \<and>
   (\<exists>rs'. fst (mkRoots I a pkgs rs) = fst rs @ rs' \<and>
      list_all2 (\<lambda>r p. actions (snd (mkRoots I a pkgs rs)) (a, p) = Some r) rs' pkgs)"
proof (induction I a pkgs rs rule: mkRoots.induct)
  case (2 I a p pkgs roots st)
  obtain root st1 where m: "mkAction I a p st = (root, st1)" by (cases "mkAction I a p st")
  define fin where "fin = mkRoots I a pkgs (roots @ [root], setRoot root st1)"
  have res: "mkRoots I a (p # pkgs) (roots, st) = fin" using m by (simp add: fin_def)
  have b: "actions st1 (a, p) = Some root" using mkAction_binds [of I a p st] m by simp
  have le1: "actions st \<subseteq>\<^sub>m actions st1" using mkAction_map_le [of st I a p] m by simp
  from "2.IH" [OF m [symmetric]] obtain rs' where
    le2: "actions st1 \<subseteq>\<^sub>m actions (snd fin)" and
    r: "fst fin = (roots @ [root]) @ rs'"
       "list_all2 (\<lambda>r p. actions (snd fin) (a, p) = Some r) rs' pkgs"
    by (auto simp: fin_def)
  have "actions (snd fin) (a, p) = Some root" using le2 b by (rule map_le_Some)
  then have "list_all2 (\<lambda>r p. actions (snd fin) (a, p) = Some r) (root # rs') (p # pkgs)"
    using r(2) by simp
  moreover have "fst fin = roots @ (root # rs')" using r(1) by simp
  moreover have "actions st \<subseteq>\<^sub>m actions (snd fin)" using le1 le2 by (rule map_le_trans)
  ultimately show ?case unfolding res by auto
qed simp

lemma mkAllRoots_roots:
  "actions (snd rs) \<subseteq>\<^sub>m actions (snd (mkAllRoots I analyzers pkgs rs)) \<and>
   (\<exists>rs'. fst (mkAllRoots I analyzers pkgs rs) = fst rs @ rs' \<and>
      list_all2 (\<lambda>r k. actions (snd (mkAllRoots I analyzers pkgs rs)) k = Some r) rs'
        (List.product analyzers pkgs))"
proof (induction I analyzers pkgs rs rule: mkAllRoots.induct)
  case (2 I a analyzers pkgs rs)
  define mid where "mid = mkRoots I a pkgs rs"
  define fin where "fin = mkAllRoots I analyzers pkgs mid"
  have res: "mkAllRoots I (a # analyzers) pkgs rs = fin" by (simp add: fin_def mid_def)
  from mkRoots_roots [of rs I a pkgs] obtain r1 where
    le1: "actions (snd rs) \<subseteq>\<^sub>m actions (snd mid)" and
    r1: "fst mid = fst rs @ r1" "list_all2 (\<lambda>r p. actions (snd mid) (a, p) = Some r) r1 pkgs"
    by (auto simp: mid_def)
  from "2.IH" obtain r2 where
    le2: "actions (snd mid) \<subseteq>\<^sub>m actions (snd fin)" and
    r2: "fst fin = fst mid @ r2"
        "list_all2 (\<lambda>r k. actions (snd fin) k = Some r) r2 (List.product analyzers pkgs)"
    by (auto simp: fin_def mid_def)
  have "list_all2 (\<lambda>r p. actions (snd fin) (a, p) = Some r) r1 pkgs"
    using r1(2) by (rule list_all2_mono) (rule map_le_Some [OF le2])
  then have "list_all2 (\<lambda>r k. actions (snd fin) k = Some r) r1 (map (Pair a) pkgs)"
    by (simp add: list_all2_map2)
  then have "list_all2 (\<lambda>r k. actions (snd fin) k = Some r) (r1 @ r2) (List.product (a # analyzers) pkgs)"
    using r2(2) by (simp add: list_all2_appendI)
  moreover have "fst fin = fst rs @ (r1 @ r2)" using r1(1) r2(1) by simp
  moreover have "actions (snd rs) \<subseteq>\<^sub>m actions (snd fin)" using le1 le2 by (rule map_le_trans)
  ultimately show ?case unfolding res by blast
qed simp

lemma buildGraph_roots:
  "list_all2 (\<lambda>r k. actions (snd (buildGraph analyzers pkgs)) k = Some r)
     (fst (buildGraph analyzers pkgs)) (List.product analyzers pkgs)"
  using mkAllRoots_roots [of "([], \<lparr>actions = Map.empty, heap = []\<rparr>)" "\<lambda>p. p \<in> set pkgs" analyzers pkgs]
  by (auto simp: buildGraph_def)

lemma wfB_unique:
  assumes "wfB st" "v \<in> ran (actions st)" "w \<in> ran (actions st)"
    "an (heap st ! v) = an (heap st ! w)" "pkg (heap st ! v) = pkg (heap st ! w)"
  shows "v = w"
proof -
  obtain k1 k2 where k: "actions st k1 = Some v" "actions st k2 = Some w"
    using assms(2,3) by (auto simp: ran_def)
  have "k1 = (an (heap st ! v), pkg (heap st ! v))"
    using assms(1) k(1) unfolding wfB_def by (cases k1) auto
  moreover have "k2 = (an (heap st ! w), pkg (heap st ! w))"
    using assms(1) k(2) unfolding wfB_def by (cases k2) auto
  ultimately have "k1 = k2" using assms(4,5) by simp
  then show ?thesis using k by simp
qed

text \<open>
  Claim C2. At most one action exists per (analyzer, package): a call of \<open>mkAction\<close>
  binds its key to the action it returns, no later call rebinds a key, a call on a
  bound key returns the bound action and changes nothing (so two calls with the same
  analyzer and package return the same action, whatever is built in between), and in
  the graph \<^verbatim>\<open>analyze\<close> builds every action of the map carries its own key, two
  actions of the map with equal keys are the same action, and every root is the
  action of its key.
\<close>

theorem mkAction_dedup:
  "actions (snd (mkAction I a p st)) (a, p) = Some (fst (mkAction I a p st)) \<and>
   (\<forall>I' b q. actions st \<subseteq>\<^sub>m actions (snd (mkAction I' b q st))) \<and>
   (\<forall>v. actions st (a, p) = Some v \<longrightarrow> mkAction I a p st = (v, st)) \<and>
   (\<forall>I' I'' b q.
      fst (mkAction I'' a p (snd (mkAction I' b q (snd (mkAction I a p st))))) =
      fst (mkAction I a p st)) \<and>
   (\<forall>k v. actions (snd (buildGraph analyzers pkgs)) k = Some v \<longrightarrow>
      v < length (heap (snd (buildGraph analyzers pkgs))) \<and>
      (an (heap (snd (buildGraph analyzers pkgs)) ! v),
       pkg (heap (snd (buildGraph analyzers pkgs)) ! v)) = k) \<and>
   (\<forall>v w. v \<in> ran (actions (snd (buildGraph analyzers pkgs))) \<longrightarrow>
      w \<in> ran (actions (snd (buildGraph analyzers pkgs))) \<longrightarrow>
      an (heap (snd (buildGraph analyzers pkgs)) ! v) = an (heap (snd (buildGraph analyzers pkgs)) ! w) \<longrightarrow>
      pkg (heap (snd (buildGraph analyzers pkgs)) ! v) = pkg (heap (snd (buildGraph analyzers pkgs)) ! w) \<longrightarrow>
      v = w) \<and>
   list_all2 (\<lambda>r k. actions (snd (buildGraph analyzers pkgs)) k = Some r)
     (fst (buildGraph analyzers pkgs)) (List.product analyzers pkgs)"
proof -
  define G where "G = snd (buildGraph analyzers pkgs)"
  have w: "wfB G" unfolding G_def by (rule wfB_buildGraph)
  have again: "fst (mkAction I'' a p (snd (mkAction I' b q (snd (mkAction I a p st))))) =
      fst (mkAction I a p st)" for I' I'' b q
  proof -
    define st1 where "st1 = snd (mkAction I a p st)"
    define st2 where "st2 = snd (mkAction I' b q st1)"
    have "actions st1 (a, p) = Some (fst (mkAction I a p st))"
      unfolding st1_def by (rule mkAction_binds)
    moreover have "actions st1 \<subseteq>\<^sub>m actions st2" unfolding st2_def by (rule mkAction_map_le)
    ultimately have "actions st2 (a, p) = Some (fst (mkAction I a p st))"
      by (rule map_le_Some [rotated])
    then show ?thesis using mkAction_bound [of st2 a p _ I''] by (simp add: st1_def st2_def)
  qed
  have key: "v < length (heap G) \<and> (an (heap G ! v), pkg (heap G ! v)) = k"
    if "actions G k = Some v" for k v
    using w that unfolding wfB_def by (cases k) auto
  have uniq: "v = w" if "v \<in> ran (actions G)" "w \<in> ran (actions G)"
    "an (heap G ! v) = an (heap G ! w)" "pkg (heap G ! v) = pkg (heap G ! w)" for v w
    using wfB_unique [OF w that] .
  show ?thesis
    using mkAction_binds [of I a p st] mkAction_map_le [of st] mkAction_bound [of st a p _ I]
      again key uniq buildGraph_roots [of analyzers pkgs]
    unfolding G_def by blast
qed

abbreviation emptyBuilder :: builder where
  "emptyBuilder \<equiv> \<lparr>actions = Map.empty, heap = []\<rparr>"

theorem mkAction_dedup_witness:
  "fst (mkAction (\<lambda>p. True) exFactAnalyzer exRoot emptyBuilder) = 0 \<and>
   actions (snd (mkAction (\<lambda>p. True) exFactAnalyzer exRoot emptyBuilder)) (exFactAnalyzer, exRoot) = Some 0 \<and>
   fst (mkAction (\<lambda>p. True) exFactAnalyzer exRoot
         (snd (mkAction (\<lambda>p. True) exFactAnalyzer (exPkg ''leaf'' [])
           (snd (mkAction (\<lambda>p. True) exFactAnalyzer exRoot emptyBuilder))))) = 0 \<and>
   fst (buildGraph [exFactAnalyzer, exFactAnalyzer] [exRoot]) = [0, 0] \<and>
   length (heap (snd (buildGraph [exFactAnalyzer, exFactAnalyzer] [exRoot]))) = 3 \<and>
   list_all2 (\<lambda>r k. actions (snd (buildGraph [exFactAnalyzer, exFactAnalyzer] [exRoot])) k = Some r)
     (fst (buildGraph [exFactAnalyzer, exFactAnalyzer] [exRoot]))
     (List.product [exFactAnalyzer, exFactAnalyzer] [exRoot])"
proof -
  have h1: "fst (mkAction (\<lambda>p. True) exFactAnalyzer exRoot emptyBuilder) = 0" by code_simp
  have h2: "fst (buildGraph [exFactAnalyzer, exFactAnalyzer] [exRoot]) = [0, 0]" by code_simp
  have h3: "length (heap (snd (buildGraph [exFactAnalyzer, exFactAnalyzer] [exRoot]))) = 3"
    by code_simp
  from mkAction_dedup [of "\<lambda>p. True" exFactAnalyzer exRoot emptyBuilder
      "[exFactAnalyzer, exFactAnalyzer]" "[exRoot]"] h1 h2 h3
  show ?thesis by metis
qed


section \<open>Effects, failures and the external collaborators\<close>

text \<open>
  A Go panic and the process exit of \<^verbatim>\<open>log.Fatalf\<close> are results of the model. What
  a function does to the world outside the action graph (the cache, the analyzer's
  entry point, the loaders, warnings) is recorded as a list of events, in order.
\<close>

datatype 'a outcome = Ok 'a | Panic string | Fatal string

record persistedFact =
  Path :: string
  Fact :: analysisFact

datatype event =
    CacheGet string string
  | CachePut string string "persistedFact list"
  | RunCalled string string
  | Warnf string
  | LoadFromSource string
  | LoadFromExportData string

datatype cacheError = ErrMissing | ErrCache string

datatype passCall =
    Report analysisDiagnostic
  | CallExportObjectFact typesObject analysisFact
  | CallExportPackageFact analysisFact

datatype runReturn = Returns "anyValue option" "string option" | Panics string

text \<open>
  The code outside the file, taken as parameters: the package cache, \<^verbatim>\<open>objectpath\<close>,
  the gob codec (the call number lets an encoder be non-deterministic), the analyzers'
  entry points (an entry point is given the action, whose facts and pass it can read,
  and answers with the calls it makes on the pass and what it returns), and the two
  debug settings \<^verbatim>\<open>isFactsDebug\<close> and \<^verbatim>\<open>Debug\<close>.
\<close>

record env =
  cacheGet :: "package \<Rightarrow> string \<Rightarrow> cacheError + persistedFact list"
  cachePut :: "package \<Rightarrow> string \<Rightarrow> persistedFact list \<Rightarrow> string option"
  objectpathFor :: "typesObject \<Rightarrow> string option"
  objectpathObject :: "typesPackage option \<Rightarrow> string \<Rightarrow> typesObject option"
  gobEncode :: "nat \<Rightarrow> analysisFact \<Rightarrow> string + string"
  gobDecode :: "string \<Rightarrow> reflectType \<Rightarrow> string + string"
  Run :: "analyzer \<Rightarrow> action \<Rightarrow> passCall list \<times> runReturn"
  isFactsDebug :: bool
  Debug :: string

section \<open>Facts\<close>

definition factType :: "analysisFact \<Rightarrow> reflectType outcome" where
  "factType fct =
     (if \<not> isPtr (dynType fct) then Fatal ''invalid Fact type: want pointer''
      else Ok (dynType fct))"

text \<open>
  \<^verbatim>\<open>exportPackageFact\<close>. The arguments of the debug call are evaluated before
  \<^verbatim>\<open>factsDebugf\<close> decides whether to print: \<^verbatim>\<open>act.pass.Files[0]\<close> is read, and
  \<^verbatim>\<open>Path\<close> is called on \<^verbatim>\<open>act.pass.Pkg\<close>, whatever the debug setting is.
\<close>

definition exportPackageFact :: "env \<Rightarrow> action \<Rightarrow> analysisFact \<Rightarrow> action outcome" where
  "exportPackageFact E act fct =
     (case pass act of
        None \<Rightarrow> Panic ''nil pointer dereference''
      | Some ps \<Rightarrow>
          if \<not> ExportPackageFact ps then Panic ''Pass.ExportPackageFact called after Run''
          else
            (case factType fct of
               Fatal m \<Rightarrow> Fatal m
             | Panic m \<Rightarrow> Panic m
             | Ok typ \<Rightarrow>
                 (let act' = act\<lparr>packageFacts := AList.update (Pkg ps, typ) fct (packageFacts act)\<rparr>
                  in case Files ps of
                       [] \<Rightarrow> Panic ''index out of range''
                     | f # fs \<Rightarrow>
                         (case Pkg ps of
                            None \<Rightarrow> Panic ''nil pointer dereference''
                          | Some tp \<Rightarrow> Ok act'))))"

definition exportObjectFact :: "env \<Rightarrow> action \<Rightarrow> typesObject \<Rightarrow> analysisFact \<Rightarrow> action outcome" where
  "exportObjectFact E act obj fct =
     (case pass act of
        None \<Rightarrow> Panic ''nil pointer dereference''
      | Some ps \<Rightarrow>
          if \<not> ExportObjectFact ps then Panic ''Pass.ExportObjectFact called after Run''
          else if objPkg obj \<noteq> Types (pkg act)
          then Panic ''internal error: can't set facts on objects belonging another package''
          else
            (case factType fct of
               Fatal m \<Rightarrow> Fatal m
             | Panic m \<Rightarrow> Panic m
             | Ok typ \<Rightarrow> Ok (act\<lparr>objectFacts := AList.update (obj, typ) fct (objectFacts act)\<rparr>)))"

text \<open>\<^verbatim>\<open>persistFactsToCache\<close>: the two loops, each with its \<^verbatim>\<open>continue\<close>s.\<close>

fun persistPackageFacts ::
  "typesPackage option \<Rightarrow> (packageFactKey \<times> analysisFact) list \<Rightarrow> persistedFact list \<Rightarrow> persistedFact list"
where
  "persistPackageFacts own [] facts = facts"
| "persistPackageFacts own ((key, fct) # rest) facts =
     (if fst key \<noteq> own then persistPackageFacts own rest facts
      else persistPackageFacts own rest (facts @ [\<lparr>Path = '''', Fact = fct\<rparr>]))"

fun persistObjectFacts ::
  "env \<Rightarrow> typesPackage option \<Rightarrow> (objectFactKey \<times> analysisFact) list \<Rightarrow> persistedFact list \<Rightarrow> persistedFact list"
where
  "persistObjectFacts E own [] facts = facts"
| "persistObjectFacts E own ((key, fct) # rest) facts =
     (if objPkg (fst key) \<noteq> own then persistObjectFacts E own rest facts
      else
        (case objectpathFor E (fst key) of
           None \<Rightarrow> persistObjectFacts E own rest facts
         | Some path \<Rightarrow> persistObjectFacts E own rest (facts @ [\<lparr>Path = path, Fact = fct\<rparr>])))"

definition factsKey :: "analyzer \<Rightarrow> string" where
  "factsKey a = Name a @ ''/facts''"

definition persistFactsToCache :: "env \<Rightarrow> action \<Rightarrow> string option \<times> event list" where
  "persistFactsToCache E act =
     (if FactTypes (an act) = [] then (None, [])
      else
        (let facts = persistPackageFacts (Types (pkg act)) (packageFacts act) [];
             facts = persistObjectFacts E (Types (pkg act)) (objectFacts act) facts;
             key = factsKey (an act)
         in (cachePut E (pkg act) key facts, [CachePut (ID (pkg act)) key facts])))"

text \<open>\<^verbatim>\<open>loadPersistedFacts\<close> and \<^verbatim>\<open>loadCachedFacts\<close>.\<close>

fun loadFacts :: "env \<Rightarrow> persistedFact list \<Rightarrow> action \<Rightarrow> action outcome" where
  "loadFacts E [] act = Ok act"
| "loadFacts E (f # facts) act =
     (if Path f = '''' then
        (case factType (Fact f) of
           Fatal m \<Rightarrow> Fatal m
         | Panic m \<Rightarrow> Panic m
         | Ok typ \<Rightarrow>
             loadFacts E facts
               (act\<lparr>packageFacts := AList.update (Types (pkg act), typ) (Fact f) (packageFacts act)\<rparr>))
      else
        (case objectpathObject E (Types (pkg act)) (Path f) of
           None \<Rightarrow> loadFacts E facts act
         | Some obj \<Rightarrow>
             (case factType (Fact f) of
                Fatal m \<Rightarrow> Fatal m
              | Panic m \<Rightarrow> Panic m
              | Ok typ \<Rightarrow>
                  loadFacts E facts
                    (act\<lparr>objectFacts := AList.update (obj, typ) (Fact f) (objectFacts act)\<rparr>))))"

definition loadPersistedFacts :: "env \<Rightarrow> action \<Rightarrow> (bool \<times> action) outcome \<times> event list" where
  "loadPersistedFacts E act =
     (let key = factsKey (an act) in
      case cacheGet E (pkg act) key of
        Inl e \<Rightarrow>
          (Ok (False, act),
           CacheGet (ID (pkg act)) key #
             (if e \<noteq> ErrMissing then [Warnf ''Failed to get persisted facts''] else []))
      | Inr facts \<Rightarrow>
          (case loadFacts E facts act of
             Ok act' \<Rightarrow> (Ok (True, act'), [CacheGet (ID (pkg act)) key])
           | Panic m \<Rightarrow> (Panic m, [CacheGet (ID (pkg act)) key])
           | Fatal m \<Rightarrow> (Fatal m, [CacheGet (ID (pkg act)) key])))"

definition loadCachedFacts :: "env \<Rightarrow> action \<Rightarrow> (bool \<times> action) outcome \<times> event list" where
  "loadCachedFacts E act =
     (if loadCachedFactsDone act then (Ok (loadCachedFactsOk act, act), [])
      else
        (let (res, evs) =
               (if isInitialPkg act then (Ok (True, act), [])
                else if FactTypes (an act) = [] then (Ok (True, act), [])
                else loadPersistedFacts E act)
         in case res of
              Ok (ok, act') \<Rightarrow>
                (Ok (ok, act'\<lparr>loadCachedFactsDone := True, loadCachedFactsOk := ok\<rparr>), evs)
            | Panic m \<Rightarrow> (Panic m, evs)
            | Fatal m \<Rightarrow> (Fatal m, evs)))"

fun isCacheGet :: "event \<Rightarrow> bool" where
  "isCacheGet (CacheGet p k) = True"
| "isCacheGet e = False"

lemma loadPersistedFacts_events:
  "list_ex isCacheGet (snd (loadPersistedFacts E act)) \<and>
   length (filter isCacheGet (snd (loadPersistedFacts E act))) = 1"
  by (simp add: loadPersistedFacts_def Let_def split: sum.splits outcome.splits)

text \<open>
  Claim C9. \<^verbatim>\<open>loadCachedFacts\<close> reads the cache exactly when the action has not been
  asked before, its package is not initial and its analyzer declares a fact type. In
  the two excluded cases it answers success without any event; an answer is recorded
  in the action, and every later call returns the recorded answer without reading
  the cache.
\<close>

theorem loadCachedFacts_consults_cache:
  "(\<not> loadCachedFactsDone act \<longrightarrow>
      (list_ex isCacheGet (snd (loadCachedFacts E act)) \<longleftrightarrow>
       \<not> isInitialPkg act \<and> FactTypes (an act) \<noteq> [])) \<and>
   (\<not> loadCachedFactsDone act \<longrightarrow> isInitialPkg act \<or> FactTypes (an act) = [] \<longrightarrow>
      loadCachedFacts E act =
        (Ok (True, act\<lparr>loadCachedFactsDone := True, loadCachedFactsOk := True\<rparr>), [])) \<and>
   (loadCachedFactsDone act \<longrightarrow> loadCachedFacts E act = (Ok (loadCachedFactsOk act, act), [])) \<and>
   length (filter isCacheGet (snd (loadCachedFacts E act))) \<le> 1 \<and>
   (\<forall>ok act' evs. loadCachedFacts E act = (Ok (ok, act'), evs) \<longrightarrow>
      loadCachedFactsDone act' \<and> loadCachedFactsOk act' = ok \<and>
      loadCachedFacts E act' = (Ok (ok, act'), []))"
proof (intro conjI impI allI)
  assume nd: "\<not> loadCachedFactsDone act"
  show "list_ex isCacheGet (snd (loadCachedFacts E act)) \<longleftrightarrow>
       \<not> isInitialPkg act \<and> FactTypes (an act) \<noteq> []"
  proof (cases "isInitialPkg act \<or> FactTypes (an act) = []")
    case True
    then show ?thesis using nd by (auto simp: loadCachedFacts_def)
  next
    case False
    obtain res evs where l: "loadPersistedFacts E act = (res, evs)"
      by (cases "loadPersistedFacts E act")
    have "list_ex isCacheGet evs" using loadPersistedFacts_events [of E act] l by simp
    then have "list_ex isCacheGet (snd (loadCachedFacts E act))"
      using nd False l by (simp add: loadCachedFacts_def split: outcome.splits prod.splits)
    then show ?thesis using False by simp
  qed
next
  assume "\<not> loadCachedFactsDone act" "isInitialPkg act \<or> FactTypes (an act) = []"
  then show "loadCachedFacts E act =
        (Ok (True, act\<lparr>loadCachedFactsDone := True, loadCachedFactsOk := True\<rparr>), [])"
    by (auto simp: loadCachedFacts_def)
next
  assume "loadCachedFactsDone act"
  then show "loadCachedFacts E act = (Ok (loadCachedFactsOk act, act), [])"
    by (simp add: loadCachedFacts_def)
next
  obtain res evs where l: "loadPersistedFacts E act = (res, evs)"
    by (cases "loadPersistedFacts E act")
  have "length (filter isCacheGet evs) = 1" using loadPersistedFacts_events [of E act] l by simp
  then show "length (filter isCacheGet (snd (loadCachedFacts E act))) \<le> 1"
    using l by (simp add: loadCachedFacts_def split: outcome.splits prod.splits)
next
  fix ok act' evs
  assume r: "loadCachedFacts E act = (Ok (ok, act'), evs)"
  have "loadCachedFactsDone act' \<and> loadCachedFactsOk act' = ok"
    using r by (auto simp: loadCachedFacts_def Let_def split: if_splits outcome.splits prod.splits)
  then show "loadCachedFactsDone act'" and "loadCachedFactsOk act' = ok"
    and "loadCachedFacts E act' = (Ok (ok, act'), [])"
    by (simp_all add: loadCachedFacts_def)
qed

lemma map_of_update: "map_of (AList.update k v al) = (map_of al)(k \<mapsto> v)"
  by (rule ext) (simp add: update_conv)

text \<open>
  Claim C10. On a pass that is still open, with a fact of pointer type:
  \<^verbatim>\<open>exportPackageFact\<close> panics with an index out of range when the pass has no
  syntax file, whatever \<^verbatim>\<open>isFactsDebug\<close> is; with at least one syntax file (and the
  package's type universe set) it returns normally and the fact is stored under
  (own package, fact type), replacing an earlier one.
\<close>

theorem exportPackageFact_files:
  assumes "pass act = Some ps" and "ExportPackageFact ps" and "isPtr (dynType fct)"
  shows "(Files ps = [] \<longrightarrow> exportPackageFact E act fct = Panic ''index out of range'') \<and>
         (Files ps \<noteq> [] \<longrightarrow> Pkg ps \<noteq> None \<longrightarrow>
            (\<exists>act'. exportPackageFact E act fct = Ok act' \<and>
               act' = act\<lparr>packageFacts := packageFacts act'\<rparr> \<and>
               map_of (packageFacts act') =
                 (map_of (packageFacts act))((Pkg ps, dynType fct) \<mapsto> fct))) \<and>
         exportPackageFact (E\<lparr>isFactsDebug := b\<rparr>) act fct = exportPackageFact E act fct"
  using assms
  by (auto simp: exportPackageFact_def factType_def Let_def map_of_update split: list.splits)

lemma persistPackageFacts_eq:
  "persistPackageFacts own kfs acc =
     acc @ map (\<lambda>kf. \<lparr>Path = '''', Fact = snd kf\<rparr>) (filter (\<lambda>kf. fst (fst kf) = own) kfs)"
  by (induction own kfs acc rule: persistPackageFacts.induct) simp_all

lemma persistObjectFacts_eq:
  "persistObjectFacts E own kfs acc =
     acc @ map (\<lambda>kf. \<lparr>Path = the (objectpathFor E (fst (fst kf))), Fact = snd kf\<rparr>)
       (filter (\<lambda>kf. objPkg (fst (fst kf)) = own \<and> objectpathFor E (fst (fst kf)) \<noteq> None) kfs)"
  by (induction E own kfs acc rule: persistObjectFacts.induct) (auto split: option.splits)

text \<open>
  The facts the claim lets through, in its words: a package fact whose target is the
  action's own package, and an object fact whose object belongs to the action's own
  package and has an object path.
\<close>

definition ownPackageFact :: "action \<Rightarrow> packageFactKey \<times> analysisFact \<Rightarrow> bool" where
  "ownPackageFact act kf \<longleftrightarrow> fst (fst kf) = Types (pkg act)"

definition ownAddressableObjectFact :: "env \<Rightarrow> action \<Rightarrow> objectFactKey \<times> analysisFact \<Rightarrow> bool" where
  "ownAddressableObjectFact E act kf \<longleftrightarrow>
     objPkg (fst (fst kf)) = Types (pkg act) \<and> objectpathFor E (fst (fst kf)) \<noteq> None"

definition eligibleFacts :: "env \<Rightarrow> action \<Rightarrow> persistedFact list" where
  "eligibleFacts E act =
     map (\<lambda>kf. \<lparr>Path = '''', Fact = snd kf\<rparr>) (filter (ownPackageFact act) (packageFacts act)) @
     map (\<lambda>kf. \<lparr>Path = the (objectpathFor E (fst (fst kf))), Fact = snd kf\<rparr>)
       (filter (ownAddressableObjectFact E act) (objectFacts act))"

lemma ownPackageFact_fun: "ownPackageFact act = (\<lambda>kf. fst (fst kf) = Types (pkg act))"
  by (rule ext) (simp add: ownPackageFact_def)

lemma ownAddressableObjectFact_fun:
  "ownAddressableObjectFact E act =
     (\<lambda>kf. objPkg (fst (fst kf)) = Types (pkg act) \<and> objectpathFor E (fst (fst kf)) \<noteq> None)"
  by (rule ext) (simp add: ownAddressableObjectFact_def)

lemma eligibleFacts_filtered:
  "eligibleFacts E
     (act\<lparr>packageFacts := filter (ownPackageFact act) (packageFacts act),
          objectFacts := filter (ownAddressableObjectFact E act) (objectFacts act)\<rparr>) =
   eligibleFacts E act"
  by (simp add: eligibleFacts_def ownPackageFact_fun ownAddressableObjectFact_fun)

lemma persisted_eligible:
  "persistObjectFacts E (Types (pkg act)) (objectFacts act)
     (persistPackageFacts (Types (pkg act)) (packageFacts act) []) = eligibleFacts E act"
  unfolding persistPackageFacts_eq persistObjectFacts_eq eligibleFacts_def
    ownPackageFact_fun ownAddressableObjectFact_fun
  by simp

text \<open>
  Claim C4. For an analyzer with fact types, the list \<^verbatim>\<open>persistFactsToCache\<close> hands to
  the cache is exactly the package facts of the action's own package followed by the
  object facts of objects of the own package that have an object path; every other
  fact is left out, leaving it out changes neither the list nor the value returned,
  and the value returned is the cache's.
\<close>

theorem persistFactsToCache_scoped:
  "persistFactsToCache E act =
     (if FactTypes (an act) = [] then (None, [])
      else (cachePut E (pkg act) (factsKey (an act)) (eligibleFacts E act),
            [CachePut (ID (pkg act)) (factsKey (an act)) (eligibleFacts E act)])) \<and>
   persistFactsToCache E
     (act\<lparr>packageFacts := filter (ownPackageFact act) (packageFacts act),
          objectFacts := filter (ownAddressableObjectFact E act) (objectFacts act)\<rparr>) =
   persistFactsToCache E act \<and>
   length (eligibleFacts E act) =
     length (filter (ownPackageFact act) (packageFacts act)) +
     length (filter (ownAddressableObjectFact E act) (objectFacts act))"
proof -
  have a: "persistFactsToCache E x =
     (if FactTypes (an x) = [] then (None, [])
      else (cachePut E (pkg x) (factsKey (an x)) (eligibleFacts E x),
            [CachePut (ID (pkg x)) (factsKey (an x)) (eligibleFacts E x)]))" for x
    by (simp add: persistFactsToCache_def Let_def persisted_eligible)
  show ?thesis
    unfolding a using eligibleFacts_filtered [of E act]
    by (simp add: eligibleFacts_def)
qed

abbreviation exEnv :: env where
  "exEnv \<equiv>
     \<lparr>cacheGet = (\<lambda>p k. Inl ErrMissing), cachePut = (\<lambda>p k fs. None),
      objectpathFor = (\<lambda>obj. if objExported obj then Some (objName obj) else None),
      objectpathObject = (\<lambda>tp path. None),
      gobEncode = (\<lambda>n f. Inl ''gob: type not registered''), gobDecode = (\<lambda>b t. Inr b),
      Run = (\<lambda>a act. ([], Returns None None)), isFactsDebug = False, Debug = ''s''\<rparr>"

abbreviation exFactType :: reflectType where
  "exFactType \<equiv> ReflectType True ''*F.fact''"

abbreviation exOwn :: typesPackage where
  "exOwn \<equiv> TypesPackage 1 ''leaf''"

abbreviation exOther :: typesPackage where
  "exOther \<equiv> TypesPackage 2 ''other''"

abbreviation exLeaf :: package where
  "exLeaf \<equiv> Package ''leaf'' ''leaf'' ''leaf'' [] [] [] (Some exOwn) False [] None []"

abbreviation exFactsAction :: action where
  "exFactsAction \<equiv>
     (newAction (\<lambda>p. False) exFactAnalyzer exLeaf)
       \<lparr>packageFacts :=
          [((Some exOwn, exFactType), AnyValue exFactType ''f1''),
           ((Some exOther, exFactType), AnyValue exFactType ''f2'')],
        objectFacts :=
          [((TypesObject ''Foo'' TypeNameObj True (Some exOwn), exFactType), AnyValue exFactType ''f3''),
           ((TypesObject ''Bar'' TypeNameObj True (Some exOther), exFactType), AnyValue exFactType ''f4''),
           ((TypesObject ''local'' (VarObj False) False (Some exOwn), exFactType), AnyValue exFactType ''f5'')]\<rparr>"

theorem persistFactsToCache_scoped_witness:
  "FactTypes (an exFactsAction) \<noteq> [] \<and>
   persistFactsToCache exEnv exFactsAction =
     (None, [CachePut ''leaf'' ''F/facts''
        [\<lparr>Path = '''', Fact = AnyValue exFactType ''f1''\<rparr>,
         \<lparr>Path = ''Foo'', Fact = AnyValue exFactType ''f3''\<rparr>]]) \<and>
   eligibleFacts exEnv exFactsAction =
     [\<lparr>Path = '''', Fact = AnyValue exFactType ''f1''\<rparr>,
      \<lparr>Path = ''Foo'', Fact = AnyValue exFactType ''f3''\<rparr>]"
proof -
  have e: "eligibleFacts exEnv exFactsAction =
     [\<lparr>Path = '''', Fact = AnyValue exFactType ''f1''\<rparr>,
      \<lparr>Path = ''Foo'', Fact = AnyValue exFactType ''f3''\<rparr>]"
    by code_simp
  have f: "FactTypes (an exFactsAction) \<noteq> []" by code_simp
  have k: "factsKey (an exFactsAction) = ''F/facts''" "ID (pkg exFactsAction) = ''leaf''"
    by code_simp+
  have c: "cachePut exEnv p key fs = None" for p key fs by simp
  from persistFactsToCache_scoped [of exEnv exFactsAction] f
  have "persistFactsToCache exEnv exFactsAction =
     (cachePut exEnv (pkg exFactsAction) (factsKey (an exFactsAction)) (eligibleFacts exEnv exFactsAction),
      [CachePut (ID (pkg exFactsAction)) (factsKey (an exFactsAction)) (eligibleFacts exEnv exFactsAction)])"
    by presburger
  then have "persistFactsToCache exEnv exFactsAction =
     (None, [CachePut ''leaf'' ''F/facts''
        [\<lparr>Path = '''', Fact = AnyValue exFactType ''f1''\<rparr>,
         \<lparr>Path = ''Foo'', Fact = AnyValue exFactType ''f3''\<rparr>]])"
    unfolding e k c .
  then show ?thesis using e f by blast
qed

abbreviation exOpenPass :: "astFile list \<Rightarrow> pass" where
  "exOpenPass fs \<equiv>
     \<lparr>Files = fs, Pkg = Some exOwn, ResultOf = [], ExportObjectFact = True, ExportPackageFact = True\<rparr>"

abbreviation exRunning :: "astFile list \<Rightarrow> action" where
  "exRunning fs \<equiv> (newAction (\<lambda>p. True) exFactAnalyzer exLeaf)\<lparr>pass := Some (exOpenPass fs)\<rparr>"

theorem exportPackageFact_files_witness:
  "pass (exRunning []) = Some (exOpenPass []) \<and> ExportPackageFact (exOpenPass []) \<and>
   isPtr (dynType (AnyValue exFactType ''f1'')) \<and> \<not> isFactsDebug exEnv \<and>
   exportPackageFact exEnv (exRunning []) (AnyValue exFactType ''f1'') = Panic ''index out of range'' \<and>
   exportPackageFact exEnv (exRunning [AstFile ''a.go'' 1]) (AnyValue exFactType ''f1'') =
     Ok ((exRunning [AstFile ''a.go'' 1])
           \<lparr>packageFacts := [((Some exOwn, exFactType), AnyValue exFactType ''f1'')]\<rparr>)"
proof -
  have h1: "pass (exRunning []) = Some (exOpenPass [])" by simp
  have h2: "ExportPackageFact (exOpenPass [])" by simp
  have h3: "isPtr (dynType (AnyValue exFactType ''f1''))" by simp
  have h4: "exportPackageFact exEnv (exRunning [AstFile ''a.go'' 1]) (AnyValue exFactType ''f1'') =
     Ok ((exRunning [AstFile ''a.go'' 1])
           \<lparr>packageFacts := [((Some exOwn, exFactType), AnyValue exFactType ''f1'')]\<rparr>)"
    by code_simp
  have h5: "Files (exOpenPass []) = []" by simp
  have h6: "\<not> isFactsDebug exEnv" by simp
  from exportPackageFact_files [OF h1 h2 h3, of exEnv False] h5
  have "exportPackageFact exEnv (exRunning []) (AnyValue exFactType ''f1'') = Panic ''index out of range''"
    by blast
  then show ?thesis using h1 h2 h3 h4 h6 by blast
qed

abbreviation exColdAction :: action where
  "exColdAction \<equiv> newAction (\<lambda>p. False) exFactAnalyzer exLeaf"

theorem loadCachedFacts_consults_cache_witness:
  "\<not> loadCachedFactsDone exColdAction \<and> \<not> isInitialPkg exColdAction \<and>
   FactTypes (an exColdAction) \<noteq> [] \<and>
   list_ex isCacheGet (snd (loadCachedFacts exEnv exColdAction)) \<and>
   loadCachedFacts exEnv exColdAction =
     (Ok (False, exColdAction\<lparr>loadCachedFactsDone := True, loadCachedFactsOk := False\<rparr>),
      [CacheGet ''leaf'' ''F/facts'']) \<and>
   loadCachedFacts exEnv (exColdAction\<lparr>loadCachedFactsDone := True, loadCachedFactsOk := False\<rparr>) =
     (Ok (False, exColdAction\<lparr>loadCachedFactsDone := True, loadCachedFactsOk := False\<rparr>), []) \<and>
   loadCachedFacts exEnv (exColdAction\<lparr>isInitialPkg := True\<rparr>) =
     (Ok (True, exColdAction\<lparr>isInitialPkg := True, loadCachedFactsDone := True,
                             loadCachedFactsOk := True\<rparr>), [])"
proof -
  have h1: "\<not> loadCachedFactsDone exColdAction" "\<not> isInitialPkg exColdAction"
    "FactTypes (an exColdAction) \<noteq> []" by code_simp+
  have h2: "loadCachedFacts exEnv exColdAction =
     (Ok (False, exColdAction\<lparr>loadCachedFactsDone := True, loadCachedFactsOk := False\<rparr>),
      [CacheGet ''leaf'' ''F/facts''])"
    by code_simp
  have h3: "loadCachedFacts exEnv (exColdAction\<lparr>isInitialPkg := True\<rparr>) =
     (Ok (True, exColdAction\<lparr>isInitialPkg := True, loadCachedFactsDone := True,
                             loadCachedFactsOk := True\<rparr>), [])"
    by code_simp
  from loadCachedFacts_consults_cache [of exColdAction exEnv] h1
  have c: "list_ex isCacheGet (snd (loadCachedFacts exEnv exColdAction))" by blast
  from loadCachedFacts_consults_cache [of exColdAction exEnv] h2
  have m: "loadCachedFacts exEnv (exColdAction\<lparr>loadCachedFactsDone := True, loadCachedFactsOk := False\<rparr>) =
     (Ok (False, exColdAction\<lparr>loadCachedFactsDone := True, loadCachedFactsOk := False\<rparr>), [])"
    by blast
  show ?thesis using h1 h2 h3 c m by blast
qed


section \<open>Fact inheritance and the analysis of one action\<close>

text \<open>\<^verbatim>\<open>codeFact\<close>: encode twice, compare, decode into a new fact of the same type.\<close>

definition codeFact :: "env \<Rightarrow> analysisFact \<Rightarrow> string + analysisFact" where
  "codeFact E fct =
     (case gobEncode E 0 fct of
        Inl e \<Rightarrow> Inl e
      | Inr buf \<Rightarrow>
          (case gobEncode E 1 fct of
             Inl e \<Rightarrow> Inl e
           | Inr buf2 \<Rightarrow>
               if buf \<noteq> buf2 then Inl ''encoding of fact is nondeterministic''
               else
                 (case gobDecode E buf (dynType fct) of
                    Inl e \<Rightarrow> Inl e
                  | Inr c \<Rightarrow> Inr (AnyValue (dynType fct) c))))"

definition exportedFrom :: "typesObject \<Rightarrow> typesPackage option \<Rightarrow> bool" where
  "exportedFrom obj tp =
     (case objKind obj of
        FuncObj recv \<Rightarrow> objExported obj \<and> objPkg obj = tp \<or> recv
      | VarObj fld \<Rightarrow> objExported obj \<and> objPkg obj = tp \<or> fld
      | TypeNameObj \<Rightarrow> True
      | ConstObj \<Rightarrow> True
      | OtherObj \<Rightarrow> False)"

fun inheritObjectFacts ::
  "env \<Rightarrow> bool \<Rightarrow> typesPackage option \<Rightarrow> (objectFactKey \<times> analysisFact) list \<Rightarrow> action \<Rightarrow> action outcome"
where
  "inheritObjectFacts E serialize depTypes [] act = Ok act"
| "inheritObjectFacts E serialize depTypes ((key, fct) # rest) act =
     (if \<not> exportedFrom (fst key) depTypes then inheritObjectFacts E serialize depTypes rest act
      else if serialize then
        (case codeFact E fct of
           Inl e \<Rightarrow> Panic ''internal error: encoding of fact failed''
         | Inr fct' \<Rightarrow>
             inheritObjectFacts E serialize depTypes rest
               (act\<lparr>objectFacts := AList.update key fct' (objectFacts act)\<rparr>))
      else
        inheritObjectFacts E serialize depTypes rest
          (act\<lparr>objectFacts := AList.update key fct (objectFacts act)\<rparr>))"

fun inheritPackageFacts ::
  "env \<Rightarrow> bool \<Rightarrow> (packageFactKey \<times> analysisFact) list \<Rightarrow> action \<Rightarrow> action outcome"
where
  "inheritPackageFacts E serialize [] act = Ok act"
| "inheritPackageFacts E serialize ((key, fct) # rest) act =
     (if serialize then
        (case codeFact E fct of
           Inl e \<Rightarrow> Panic ''internal error: encoding of fact failed''
         | Inr fct' \<Rightarrow>
             inheritPackageFacts E serialize rest
               (act\<lparr>packageFacts := AList.update key fct' (packageFacts act)\<rparr>))
      else
        inheritPackageFacts E serialize rest
          (act\<lparr>packageFacts := AList.update key fct (packageFacts act)\<rparr>))"

text \<open>\<^verbatim>\<open>inheritFacts\<close>: \<^verbatim>\<open>serialize := false\<close> is the function's first statement.\<close>

definition inheritFacts :: "env \<Rightarrow> action \<Rightarrow> action \<Rightarrow> action outcome" where
  "inheritFacts E act dep =
     (let serialize = False in
      case inheritObjectFacts E serialize (Types (pkg dep)) (objectFacts dep) act of
        Ok act1 \<Rightarrow> inheritPackageFacts E serialize (packageFacts dep) act1
      | Panic m \<Rightarrow> Panic m
      | Fatal m \<Rightarrow> Fatal m)"

definition actionString :: "action \<Rightarrow> string" where
  "actionString act = Name (an act) @ ''@'' @ ID (pkg act)"

fun joinStrings :: "string \<Rightarrow> string list \<Rightarrow> string" where
  "joinStrings sep [] = ''''"
| "joinStrings sep [x] = x"
| "joinStrings sep (x # y # ys) = x @ sep @ joinStrings sep (y # ys)"

text \<open>The loop of \<^verbatim>\<open>analyze\<close> that plumbs results and facts of the dependencies.\<close>

fun plumbInputs ::
  "env \<Rightarrow> action list \<Rightarrow> nat list \<Rightarrow> (analyzer \<times> anyValue option) list \<times> action \<Rightarrow>
   ((analyzer \<times> anyValue option) list \<times> action) outcome"
where
  "plumbInputs E H [] ia = Ok ia"
| "plumbInputs E H (d # ds) (inputs, act) =
     (if pkg (H ! d) = pkg act
      then plumbInputs E H ds (AList.update (an (H ! d)) (result (H ! d)) inputs, act)
      else if an (H ! d) = an act then
        (case inheritFacts E act (H ! d) of
           Ok act' \<Rightarrow> plumbInputs E H ds (inputs, act')
         | Panic m \<Rightarrow> Panic m
         | Fatal m \<Rightarrow> Fatal m)
      else plumbInputs E H ds (inputs, act))"

text \<open>The calls an analyzer makes on its pass while it runs.\<close>

fun applyCalls :: "env \<Rightarrow> passCall list \<Rightarrow> action \<Rightarrow> action outcome" where
  "applyCalls E [] act = Ok act"
| "applyCalls E (Report d # cs) act = applyCalls E cs (act\<lparr>diagnostics := diagnostics act @ [d]\<rparr>)"
| "applyCalls E (CallExportObjectFact obj fct # cs) act =
     (case exportObjectFact E act obj fct of
        Ok act' \<Rightarrow> applyCalls E cs act'
      | Panic m \<Rightarrow> Panic m
      | Fatal m \<Rightarrow> Fatal m)"
| "applyCalls E (CallExportPackageFact fct # cs) act =
     (case exportPackageFact E act fct of
        Ok act' \<Rightarrow> applyCalls E cs act'
      | Panic m \<Rightarrow> Panic m
      | Fatal m \<Rightarrow> Fatal m)"

definition closePass :: "action \<Rightarrow> action" where
  "closePass act =
     act\<lparr>pass := map_option (\<lambda>ps. ps\<lparr>ExportObjectFact := False, ExportPackageFact := False\<rparr>) (pass act)\<rparr>"

text \<open>The end of \<^verbatim>\<open>analyze\<close>: record the error, close the pass, persist the facts.\<close>

definition finishAnalyze ::
  "env \<Rightarrow> action \<Rightarrow> string option \<Rightarrow> event list \<Rightarrow> action outcome \<times> event list" where
  "finishAnalyze E act e evs =
     (let act' = closePass (act\<lparr>err := e\<rparr>) in
      case persistFactsToCache E act' of
        (perr, pevs) \<Rightarrow>
          (Ok act',
           evs @ pevs @ (if perr \<noteq> None then [Warnf ''Failed to persist facts to cache''] else [])))"

text \<open>
  The body of \<^verbatim>\<open>analyze\<close> in two parts: \<open>runPass\<close> is the part from the run gating
  on (the pass is already in the action), \<open>analyze\<close> the part before it.
\<close>

definition runPass :: "env \<Rightarrow> action \<Rightarrow> action outcome \<times> event list" where
  "runPass E act =
     (if IllTyped (pkg act) \<and> \<not> RunDespiteErrors (an act)
      then finishAnalyze E act (Some ''analysis skipped due to errors in package'') []
      else
        (case Run E (an act) act of
           (calls, ret) \<Rightarrow>
             (case applyCalls E calls act of
                Panic m \<Rightarrow> (Panic m, [RunCalled (Name (an act)) (ID (pkg act))])
              | Fatal m \<Rightarrow> (Fatal m, [RunCalled (Name (an act)) (ID (pkg act))])
              | Ok act3 \<Rightarrow>
                  (case ret of
                     Panics m \<Rightarrow> (Panic m, [RunCalled (Name (an act)) (ID (pkg act))])
                   | Returns res e \<Rightarrow>
                       finishAnalyze E (act3\<lparr>result := res\<rparr>)
                         (if e = None
                          then (if map_option dynType res \<noteq> ResultType (an act3)
                                then Some ''internal error: result type mismatch''
                                else None)
                          else e)
                         [RunCalled (Name (an act)) (ID (pkg act))]))))"

definition analyze :: "env \<Rightarrow> action list \<Rightarrow> action \<Rightarrow> action outcome \<times> event list" where
  "analyze E H act =
     (if \<not> needAnalyzeSource act then (Ok act, [])
      else
        (let failed = map actionString (filter (\<lambda>dep. err dep \<noteq> None) (map (\<lambda>d. H ! d) (deps act)))
         in if failed \<noteq> []
            then (Ok (act\<lparr>err := Some (''failed prerequisites: '' @ joinStrings '', '' (sort failed))\<rparr>), [])
            else
              (case plumbInputs E H (deps act) ([], act) of
                 Panic m \<Rightarrow> (Panic m, [])
               | Fatal m \<Rightarrow> (Fatal m, [])
               | Ok (inputs, act1) \<Rightarrow>
                   runPass E
                     (act1\<lparr>pass := Some \<lparr>Files = Syntax (pkg act1), Pkg = Types (pkg act1),
                                   ResultOf = inputs, ExportObjectFact = True,
                                   ExportPackageFact = True\<rparr>\<rparr>))))"

fun isRunCalled :: "event \<Rightarrow> bool" where
  "isRunCalled (RunCalled a p) = True"
| "isRunCalled e = False"

definition putAll :: "('k \<times> 'v) list \<Rightarrow> ('k \<times> 'v) list \<Rightarrow> ('k \<times> 'v) list" where
  "putAll kvs m = foldl (\<lambda>m kv. AList.update (fst kv) (snd kv) m) m kvs"

lemma putAll_Nil [simp]: "putAll [] m = m"
  by (simp add: putAll_def)

lemma putAll_Cons [simp]: "putAll ((k, v) # kvs) m = putAll kvs (AList.update k v m)"
  by (simp add: putAll_def)

lemma inheritObjectFacts_plain:
  "inheritObjectFacts E False tp kfs act =
     Ok (act\<lparr>objectFacts := putAll (filter (\<lambda>kf. exportedFrom (fst (fst kf)) tp) kfs) (objectFacts act)\<rparr>)"
  by (induction kfs arbitrary: act) auto

lemma inheritPackageFacts_plain:
  "inheritPackageFacts E False kfs act = Ok (act\<lparr>packageFacts := putAll kfs (packageFacts act)\<rparr>)"
  by (induction kfs arbitrary: act) auto

lemma inheritFacts_plain:
  "inheritFacts E act dep =
     Ok (act\<lparr>objectFacts :=
               putAll (filter (\<lambda>kf. exportedFrom (fst (fst kf)) (Types (pkg dep))) (objectFacts dep))
                 (objectFacts act),
             packageFacts := putAll (packageFacts dep) (packageFacts act)\<rparr>)"
  by (simp add: inheritFacts_def inheritObjectFacts_plain inheritPackageFacts_plain)

lemma plumbInputs_ok:
  "\<exists>inputs' ofs pfs. plumbInputs E H ds (inputs, act) =
      Ok (inputs', act\<lparr>objectFacts := ofs, packageFacts := pfs\<rparr>)"
proof (induction ds arbitrary: inputs act)
  case Nil
  have "act = act\<lparr>objectFacts := objectFacts act, packageFacts := packageFacts act\<rparr>" by simp
  then show ?case by (metis plumbInputs.simps(1))
next
  case (Cons d ds)
  show ?case
  proof (cases "pkg (H ! d) = pkg act")
    case True
    then show ?thesis using Cons [of "AList.update (an (H ! d)) (result (H ! d)) inputs" act] by simp
  next
    case False
    show ?thesis
    proof (cases "an (H ! d) = an act")
      case True
      define act' where "act' = act\<lparr>objectFacts :=
               putAll (filter (\<lambda>kf. exportedFrom (fst (fst kf)) (Types (pkg (H ! d)))) (objectFacts (H ! d)))
                 (objectFacts act),
             packageFacts := putAll (packageFacts (H ! d)) (packageFacts act)\<rparr>"
      from Cons [of inputs act'] obtain inputs' ofs pfs where
        "plumbInputs E H ds (inputs, act') = Ok (inputs', act'\<lparr>objectFacts := ofs, packageFacts := pfs\<rparr>)"
        by blast
      moreover have "act'\<lparr>objectFacts := ofs, packageFacts := pfs\<rparr> = act\<lparr>objectFacts := ofs, packageFacts := pfs\<rparr>"
        by (simp add: act'_def)
      ultimately have "plumbInputs E H ds (inputs, act') =
          Ok (inputs', act\<lparr>objectFacts := ofs, packageFacts := pfs\<rparr>)" by simp
      moreover have "plumbInputs E H (d # ds) (inputs, act) = plumbInputs E H ds (inputs, act')"
        using False True by (simp add: inheritFacts_plain act'_def)
      ultimately show ?thesis by metis
    next
      case False
      then show ?thesis using \<open>pkg (H ! d) \<noteq> pkg act\<close> Cons [of inputs act] by simp
    qed
  qed
qed

lemma applyCalls_keeps:
  "applyCalls E cs act = Ok act' \<Longrightarrow> an act' = an act \<and> pkg act' = pkg act"
proof (induction cs arbitrary: act)
  case (Cons c cs)
  show ?case
  proof (cases c)
    case (Report d)
    then show ?thesis using Cons by auto
  next
    case (CallExportObjectFact obj fct)
    then show ?thesis using Cons
      by (auto simp: exportObjectFact_def factType_def split: outcome.splits option.splits if_splits)
  next
    case (CallExportPackageFact fct)
    then show ?thesis using Cons
      by (auto simp: exportPackageFact_def factType_def Let_def
          split: outcome.splits option.splits if_splits list.splits)
  qed
qed simp

lemma persist_no_run: "filter isRunCalled (snd (persistFactsToCache E act)) = []"
  by (simp add: persistFactsToCache_def Let_def)

lemma finishAnalyze_result:
  "fst (finishAnalyze E act e evs) = Ok (closePass (act\<lparr>err := e\<rparr>)) \<and>
   filter isRunCalled (snd (finishAnalyze E act e evs)) = filter isRunCalled evs"
proof -
  obtain perr pevs where p: "persistFactsToCache E (closePass (act\<lparr>err := e\<rparr>)) = (perr, pevs)"
    by (cases "persistFactsToCache E (closePass (act\<lparr>err := e\<rparr>))")
  have "filter isRunCalled pevs = []"
    using persist_no_run [of E "closePass (act\<lparr>err := e\<rparr>)"] p by simp
  then show ?thesis using p by (simp add: finishAnalyze_def Let_def)
qed

lemma closePass_err [simp]: "err (closePass act) = err act"
  by (simp add: closePass_def)

lemma runPass_gating:
  "(IllTyped (pkg act) \<and> \<not> RunDespiteErrors (an act) \<longrightarrow>
      fst (runPass E act) =
        Ok (closePass (act\<lparr>err := Some ''analysis skipped due to errors in package''\<rparr>)) \<and>
      filter isRunCalled (snd (runPass E act)) = []) \<and>
   (\<not> (IllTyped (pkg act) \<and> \<not> RunDespiteErrors (an act)) \<longrightarrow>
      filter isRunCalled (snd (runPass E act)) = [RunCalled (Name (an act)) (ID (pkg act))])"
  by (simp add: runPass_def finishAnalyze_result split: prod.splits outcome.splits runReturn.splits)

text \<open>
  Claim C3, as amended. An action that does not need source analysis returns at once:
  its analyzer is not run and its error is not touched. For an action that needs
  source analysis and whose dependencies all have no error: if the package is
  ill-typed and the analyzer does not set \<^verbatim>\<open>RunDespiteErrors\<close>, the entry point is
  not invoked and the error is "analysis skipped due to errors in package"; otherwise
  the entry point is invoked, once.
\<close>

theorem analyze_run_gating:
  "(\<not> needAnalyzeSource act \<longrightarrow> analyze E H act = (Ok act, [])) \<and>
   (needAnalyzeSource act \<longrightarrow> (\<forall>d \<in> set (deps act). err (H ! d) = None) \<longrightarrow>
      (IllTyped (pkg act) \<and> \<not> RunDespiteErrors (an act) \<longrightarrow>
         (\<exists>act'. fst (analyze E H act) = Ok act' \<and>
                 err act' = Some ''analysis skipped due to errors in package'') \<and>
         filter isRunCalled (snd (analyze E H act)) = []) \<and>
      (\<not> (IllTyped (pkg act) \<and> \<not> RunDespiteErrors (an act)) \<longrightarrow>
         filter isRunCalled (snd (analyze E H act)) = [RunCalled (Name (an act)) (ID (pkg act))]))"
proof -
  have first: "analyze E H act = (Ok act, [])" if "\<not> needAnalyzeSource act"
    using that by (simp add: analyze_def)
  have second: "(IllTyped (pkg act) \<and> \<not> RunDespiteErrors (an act) \<longrightarrow>
         (\<exists>act'. fst (analyze E H act) = Ok act' \<and>
                 err act' = Some ''analysis skipped due to errors in package'') \<and>
         filter isRunCalled (snd (analyze E H act)) = []) \<and>
      (\<not> (IllTyped (pkg act) \<and> \<not> RunDespiteErrors (an act)) \<longrightarrow>
         filter isRunCalled (snd (analyze E H act)) = [RunCalled (Name (an act)) (ID (pkg act))])"
    if n: "needAnalyzeSource act" and d: "\<forall>d \<in> set (deps act). err (H ! d) = None"
  proof -
    have nofail: "filter (\<lambda>dep. err dep \<noteq> None) (map (\<lambda>d. H ! d) (deps act)) = []"
      using d by (simp add: filter_empty_conv)
    obtain inputs ofs pfs where
      pl: "plumbInputs E H (deps act) ([], act) = Ok (inputs, act\<lparr>objectFacts := ofs, packageFacts := pfs\<rparr>)"
      using plumbInputs_ok [of E H "deps act" "[]" act] by blast
    define act2 where "act2 = act\<lparr>objectFacts := ofs, packageFacts := pfs,
        pass := Some \<lparr>Files = Syntax (pkg act), Pkg = Types (pkg act),
                      ResultOf = inputs, ExportObjectFact = True, ExportPackageFact = True\<rparr>\<rparr>"
    have same: "an act2 = an act" "pkg act2 = pkg act" by (simp_all add: act2_def)
    have a: "analyze E H act = runPass E act2"
      using n nofail pl by (simp add: analyze_def act2_def)
    show ?thesis
      unfolding a using runPass_gating [of act2 E] same by auto
  qed
  show ?thesis using first second by blast
qed

abbreviation exIllPkg :: package where
  "exIllPkg \<equiv> Package ''bad'' ''bad'' ''bad'' [] [] [] (Some (TypesPackage 3 ''bad'')) True [] None []"

text \<open>
  The claim as stated fails for an action that does not need source analysis (a
  package that is not initial and whose cached facts were loaded): the package is
  ill-typed, the analyzer does not run despite errors, there is no dependency, and
  the action's error stays unset.
\<close>

theorem analyze_run_gating_counterexample:
  "IllTyped (pkg (newAction (\<lambda>p. False) exFactAnalyzer exIllPkg)) \<and>
   \<not> RunDespiteErrors (an (newAction (\<lambda>p. False) exFactAnalyzer exIllPkg)) \<and>
   deps (newAction (\<lambda>p. False) exFactAnalyzer exIllPkg) = [] \<and>
   (\<exists>act'. analyze exEnv [] (newAction (\<lambda>p. False) exFactAnalyzer exIllPkg) = (Ok act', []) \<and>
           err act' = None)"
proof -
  have "analyze exEnv [] (newAction (\<lambda>p. False) exFactAnalyzer exIllPkg) =
      (Ok (newAction (\<lambda>p. False) exFactAnalyzer exIllPkg), [])"
    by (simp add: analyze_def newAction_def)
  moreover have "err (newAction (\<lambda>p. False) exFactAnalyzer exIllPkg) = None"
    by (simp add: newAction_def)
  ultimately show ?thesis by (simp add: newAction_def)
qed

theorem analyze_run_gating_witness:
  "needAnalyzeSource (newAction (\<lambda>p. True) exFactAnalyzer exIllPkg) \<and>
   deps (newAction (\<lambda>p. True) exFactAnalyzer exIllPkg) = [] \<and>
   IllTyped (pkg (newAction (\<lambda>p. True) exFactAnalyzer exIllPkg)) \<and>
   \<not> RunDespiteErrors (an (newAction (\<lambda>p. True) exFactAnalyzer exIllPkg)) \<and>
   (\<exists>act'. fst (analyze exEnv [] (newAction (\<lambda>p. True) exFactAnalyzer exIllPkg)) = Ok act' \<and>
           err act' = Some ''analysis skipped due to errors in package'') \<and>
   filter isRunCalled (snd (analyze exEnv [] (newAction (\<lambda>p. True) exFactAnalyzer exIllPkg))) = [] \<and>
   needAnalyzeSource (newAction (\<lambda>p. True) exFactAnalyzer exLeaf) \<and>
   \<not> IllTyped (pkg (newAction (\<lambda>p. True) exFactAnalyzer exLeaf)) \<and>
   filter isRunCalled (snd (analyze exEnv [] (newAction (\<lambda>p. True) exFactAnalyzer exLeaf))) =
     [RunCalled ''F'' ''leaf''] \<and>
   analyze exEnv [] (newAction (\<lambda>p. False) exFactAnalyzer exLeaf) =
     (Ok (newAction (\<lambda>p. False) exFactAnalyzer exLeaf), [])"
proof -
  have h: "needAnalyzeSource (newAction (\<lambda>p. True) exFactAnalyzer exIllPkg)"
    "deps (newAction (\<lambda>p. True) exFactAnalyzer exIllPkg) = []"
    "IllTyped (pkg (newAction (\<lambda>p. True) exFactAnalyzer exIllPkg))"
    "\<not> RunDespiteErrors (an (newAction (\<lambda>p. True) exFactAnalyzer exIllPkg))"
    "needAnalyzeSource (newAction (\<lambda>p. True) exFactAnalyzer exLeaf)"
    "deps (newAction (\<lambda>p. True) exFactAnalyzer exLeaf) = []"
    "\<not> IllTyped (pkg (newAction (\<lambda>p. True) exFactAnalyzer exLeaf))"
    "\<not> needAnalyzeSource (newAction (\<lambda>p. False) exFactAnalyzer exLeaf)"
    "Name (an (newAction (\<lambda>p. True) exFactAnalyzer exLeaf)) = ''F''"
    "ID (pkg (newAction (\<lambda>p. True) exFactAnalyzer exLeaf)) = ''leaf''"
    by (simp_all add: newAction_def)
  show ?thesis
    using analyze_run_gating [of "newAction (\<lambda>p. True) exFactAnalyzer exIllPkg" exEnv "[]"]
      analyze_run_gating [of "newAction (\<lambda>p. True) exFactAnalyzer exLeaf" exEnv "[]"]
      analyze_run_gating [of "newAction (\<lambda>p. False) exFactAnalyzer exLeaf" exEnv "[]"]
      h
    by simp
qed

text \<open>
  \<^verbatim>\<open>inheritFacts\<close> sets \<^verbatim>\<open>serialize\<close> to \<^verbatim>\<open>false\<close> and never reads \<^verbatim>\<open>Debug\<close>:
  whatever the debug flags and the codec are, every inherited fact is stored as it
  is, and the function returns normally.
\<close>

lemma inheritFacts_ignores_sanity_mode:
  "inheritFacts (E\<lparr>Debug := dbg, gobEncode := enc, gobDecode := dec\<rparr>) act dep = inheritFacts E act dep \<and>
   (\<exists>act'. inheritFacts E act dep = Ok act')"
  by (simp add: inheritFacts_plain)

abbreviation exDepAction :: action where
  "exDepAction \<equiv>
     (newAction (\<lambda>p. False) exFactAnalyzer exLeaf)
       \<lparr>packageFacts := [((Some exOwn, exFactType), AnyValue exFactType ''f1'')],
        objectFacts :=
          [((TypesObject ''Foo'' TypeNameObj True (Some exOwn), exFactType), AnyValue exFactType ''f3'')]\<rparr>"

text \<open>
  Claim C7 at a concrete input: \<^verbatim>\<open>Debug\<close> holds the flag \<^verbatim>\<open>s\<close> and the codec cannot
  encode the facts, so a round trip would fail; \<^verbatim>\<open>inheritFacts\<close> stores both facts
  as they are and returns normally.
\<close>

theorem inheritFacts_sanity_mode_input:
  "Debug exEnv = ''s'' \<and>
   codeFact exEnv (AnyValue exFactType ''f1'') = Inl ''gob: type not registered'' \<and>
   codeFact exEnv (AnyValue exFactType ''f3'') = Inl ''gob: type not registered'' \<and>
   inheritFacts exEnv (newAction (\<lambda>p. True) exFactAnalyzer exRoot) exDepAction =
     Ok ((newAction (\<lambda>p. True) exFactAnalyzer exRoot)
           \<lparr>objectFacts :=
              [((TypesObject ''Foo'' TypeNameObj True (Some exOwn), exFactType), AnyValue exFactType ''f3'')],
            packageFacts := [((Some exOwn, exFactType), AnyValue exFactType ''f1'')]\<rparr>)"
  by code_simp


section \<open>Package loading (\<^verbatim>\<open>loadingPackage\<close>)\<close>

text \<open>
  Go errors of the loader, by the dynamic types \<^verbatim>\<open>convertError\<close> tells apart;
  \<open>ErrWrap msg e\<close> is \<^verbatim>\<open>errors.Wrap(e, msg)\<close>, \<open>ErrOther\<close> any other error
  (\<^verbatim>\<open>fmt.Errorf\<close>, \<^verbatim>\<open>errors.New\<close>).
\<close>

datatype goError =
    ErrPackages packagesError
  | ErrPath string string
  | ErrScanner "(string \<times> string) list"
  | ErrTypes string string
  | ErrOther string
  | ErrWrap string goError

fun errorString :: "goError \<Rightarrow> string" where
  "errorString (ErrPackages e) = ePos e @ '': '' @ eMsg e"
| "errorString (ErrPath path msg) = path @ '': '' @ msg"
| "errorString (ErrScanner es) = (case es of [] \<Rightarrow> ''no errors'' | e # _ \<Rightarrow> fst e @ '': '' @ snd e)"
| "errorString (ErrTypes pos msg) = pos @ '': '' @ msg"
| "errorString (ErrOther msg) = msg"
| "errorString (ErrWrap msg e) = msg @ '': '' @ errorString e"

text \<open>
  The parser, the type checker (given the importer; it answers with the errors it
  reports through the \<^verbatim>\<open>Error\<close> callback and the error it returns), the export
  data reader, \<^verbatim>\<open>types.NewPackage\<close> and \<^verbatim>\<open>types.Unsafe\<close>.
\<close>

record loaders =
  parseFile :: "string \<Rightarrow> goError + astFile"
  typeCheck :: "(string \<Rightarrow> goError + typesPackage option) \<Rightarrow> package \<Rightarrow> goError list \<times> goError option"
  readExportData :: "package \<Rightarrow> goError + typesPackage"
  NewPackage :: "string \<Rightarrow> string \<Rightarrow> typesPackage"
  typesUnsafe :: typesPackage

record loadingPackage =
  lp_pkg :: package
  isInitial :: bool
  lp_actions :: "nat list"
  wasLoaded :: bool

definition unsafePkgName :: string where
  "unsafePkgName = ''unsafe''"

text \<open>Assignments to the fields of \<^verbatim>\<open>*packages.Package\<close> that the loader writes.\<close>

definition setTypes :: "typesPackage option \<Rightarrow> package \<Rightarrow> package" where
  "setTypes v p = (case p of Package i pp n im ef cg ty il sy ti er \<Rightarrow> Package i pp n im ef cg v il sy ti er)"

definition setIllTyped :: "bool \<Rightarrow> package \<Rightarrow> package" where
  "setIllTyped v p = (case p of Package i pp n im ef cg ty il sy ti er \<Rightarrow> Package i pp n im ef cg ty v sy ti er)"

definition setSyntax :: "astFile list \<Rightarrow> package \<Rightarrow> package" where
  "setSyntax v p = (case p of Package i pp n im ef cg ty il sy ti er \<Rightarrow> Package i pp n im ef cg ty il v ti er)"

definition setTypesInfo :: "typesInfo option \<Rightarrow> package \<Rightarrow> package" where
  "setTypesInfo v p = (case p of Package i pp n im ef cg ty il sy ti er \<Rightarrow> Package i pp n im ef cg ty il sy v er)"

definition setErrors :: "packagesError list \<Rightarrow> package \<Rightarrow> package" where
  "setErrors v p = (case p of Package i pp n im ef cg ty il sy ti er \<Rightarrow> Package i pp n im ef cg ty il sy ti v)"

fun convertError :: "goError \<Rightarrow> packagesError list \<times> event list" where
  "convertError (ErrPackages e) = ([e], [])"
| "convertError (ErrPath path msg) = ([PackagesError (path @ '':1'') msg ParseError], [])"
| "convertError (ErrScanner es) = (map (\<lambda>e. PackagesError (fst e) (snd e) ParseError) es, [])"
| "convertError (ErrTypes pos msg) = ([PackagesError pos msg TypeError], [])"
| "convertError e =
     ([PackagesError ''-'' (errorString e) UnknownError],
      [Warnf ''Internal error: error without position''])"

text \<open>The parse loop of \<^verbatim>\<open>loadFromSource\<close>; it stops at the first file that fails.\<close>

fun parseFiles :: "loaders \<Rightarrow> string list \<Rightarrow> astFile list \<Rightarrow> goError \<times> astFile list + astFile list" where
  "parseFiles L [] syn = Inr syn"
| "parseFiles L (file # files) syn =
     (case parseFile L file of
        Inl e \<Rightarrow> Inl (e, syn)
      | Inr f \<Rightarrow> parseFiles L files (syn @ [f]))"

definition importer :: "loaders \<Rightarrow> package \<Rightarrow> string \<Rightarrow> goError + typesPackage option" where
  "importer L p path =
     (if path = unsafePkgName then Inr (Some (typesUnsafe L))
      else if path = ''C'' then Inl (ErrOther ''cgo preprocessing failed'')
      else
        (case map_of (Imports p) path of
           None \<Rightarrow> Inr None
         | Some imp \<Rightarrow>
             (case Errors imp of
                e # es \<Rightarrow> Inl (ErrPackages e)
              | [] \<Rightarrow> Inr (Types imp))))"

fun reportAll :: "goError list \<Rightarrow> packagesError list \<times> event list" where
  "reportAll [] = ([], [])"
| "reportAll (e # es) =
     (case convertError e of
        (pes, evs) \<Rightarrow> (case reportAll es of (pes', evs') \<Rightarrow> (pes @ pes', evs @ evs')))"

text \<open>
  \<^verbatim>\<open>loadFromSource\<close>. After a parse error Go leaves \<^verbatim>\<open>nil\<close> in the rest of
  \<^verbatim>\<open>pkg.Syntax\<close>; the model keeps the files parsed so far (the load has failed then,
  and no pass is built from the package).
\<close>

definition loadFromSource :: "loaders \<Rightarrow> package \<Rightarrow> goError option \<times> package \<times> event list" where
  "loadFromSource L p0 =
     (let p1 = setIllTyped True (setTypes (Some (NewPackage L (PkgPath p0) (PName p0))) p0) in
      case parseFiles L (CompiledGoFiles p1) [] of
        Inl (e, syn) \<Rightarrow>
          (case convertError e of
             (pes, evs) \<Rightarrow>
               (Some e, setErrors (Errors p1 @ pes) (setSyntax syn p1), LoadFromSource (ID p0) # evs))
      | Inr syn \<Rightarrow>
          (let p2 = setTypesInfo (Some NewInfo) (setSyntax syn p1) in
           case typeCheck L (importer L p2) p2 of
             (reported, res) \<Rightarrow>
               (case reportAll reported of
                  (pes, evs) \<Rightarrow>
                    (let p3 = setErrors (Errors p2 @ pes) p2 in
                     case res of
                       Some e \<Rightarrow> (Some e, p3, LoadFromSource (ID p0) # evs)
                     | None \<Rightarrow> (None, setIllTyped False p3, LoadFromSource (ID p0) # evs)))))"

definition loadFromExportData :: "loaders \<Rightarrow> package \<Rightarrow> goError option \<times> package \<times> event list" where
  "loadFromExportData L p0 =
     (let p1 = setIllTyped True (setTypes (Some (NewPackage L (PkgPath p0) (PName p0))) p0) in
      case filter (\<lambda>imp. Types (snd imp) = None) (Imports p1) of
        imp # _ \<Rightarrow>
          (Some (ErrOther (''dependency '' @ fst imp @ '' hasn't been loaded yet'')), p1,
           [LoadFromExportData (ID p0)])
      | [] \<Rightarrow>
          if ExportFile p1 = ''''
          then (Some (ErrOther (''no export data for '' @ ID p1)), p1, [LoadFromExportData (ID p0)])
          else
            (case readExportData L p1 of
               Inl e \<Rightarrow> (Some e, p1, [LoadFromExportData (ID p0)])
             | Inr tpkg \<Rightarrow>
                 (None, setIllTyped False (setTypes (Some tpkg) p1), [LoadFromExportData (ID p0)])))"

text \<open>\<^verbatim>\<open>markDepsForAnalyzingSource\<close>: the dependencies on the same package.\<close>

fun markDepsForAnalyzingSource :: "package \<Rightarrow> nat list \<Rightarrow> action list \<Rightarrow> action list" where
  "markDepsForAnalyzingSource p [] H = H"
| "markDepsForAnalyzingSource p (d # ds) H =
     (if pkg (H ! d) = p
      then markDepsForAnalyzingSource p ds (H[d := (H ! d)\<lparr>needAnalyzeSource := True\<rparr>])
      else markDepsForAnalyzingSource p ds H)"

text \<open>
  The loop over \<^verbatim>\<open>lp.actions\<close> (the same in both places it occurs): the flag says
  whether some action's cached facts could not be loaded.
\<close>

fun loadActionsFacts ::
  "env \<Rightarrow> nat list \<Rightarrow> bool \<times> action list \<Rightarrow> (bool \<times> action list) outcome \<times> event list"
where
  "loadActionsFacts E [] nh = (Ok nh, [])"
| "loadActionsFacts E (i # is) (need, H) =
     (case loadCachedFacts E (H ! i) of
        (Panic m, evs) \<Rightarrow> (Panic m, evs)
      | (Fatal m, evs) \<Rightarrow> (Fatal m, evs)
      | (Ok (ok, act), evs) \<Rightarrow>
          (let H1 = H[i := act];
               nh = (if ok then (need, H1)
                     else (True,
                           markDepsForAnalyzingSource (pkg act) (deps act)
                             (H1[i := act\<lparr>needAnalyzeSource := True\<rparr>])))
           in case loadActionsFacts E is nh of (r, evs') \<Rightarrow> (r, evs @ evs')))"

definition loaded :: "loadingPackage \<Rightarrow> package \<Rightarrow> loadingPackage" where
  "loaded lp p = lp\<lparr>lp_pkg := p, wasLoaded := True\<rparr>"

definition loadWithFacts ::
  "loaders \<Rightarrow> env \<Rightarrow> loadingPackage \<Rightarrow> action list \<Rightarrow>
   (goError option \<times> loadingPackage \<times> action list) outcome \<times> event list"
where
  "loadWithFacts L E lp H =
     (let p = lp_pkg lp in
      if PkgPath p = unsafePkgName
      then (Ok (None,
                loaded lp (setTypesInfo (Some NewInfo) (setSyntax [] (setTypes (Some (typesUnsafe L)) p))),
                H), [])
      else if TypesInfo p \<noteq> None then
        (if \<not> wasLoaded lp then
           (case loadActionsFacts E (lp_actions lp) (False, H) of
              (Panic m, evs) \<Rightarrow> (Panic m, evs)
            | (Fatal m, evs) \<Rightarrow> (Fatal m, evs)
            | (Ok (need, H'), evs) \<Rightarrow> (Ok (None, loaded lp p, H'), evs))
         else (Ok (None, loaded lp p, H), []))
      else if isInitial lp then
        (case loadFromSource L p of (e, p', evs) \<Rightarrow> (Ok (e, loaded lp p', H), evs))
      else
        (case loadFromExportData L p of
           (Some e, p1, evs1) \<Rightarrow>
             (case loadFromSource L (setTypes (Some (NewPackage L (PkgPath p1) (PName p1))) p1) of
                (Some srcErr, p2, evs2) \<Rightarrow> (Ok (Some srcErr, loaded lp p2, H), evs1 @ evs2)
              | (None, p2, evs2) \<Rightarrow>
                  (Ok (Some (ErrWrap ''could not load export data'' e),
                       loaded lp
                         (setErrors
                            (Errors p2 @
                               [PackagesError ''-'' (''could not load export data: '' @ errorString e)
                                  ParseError])
                            p2),
                       H),
                   evs1 @ evs2))
         | (None, p1, evs1) \<Rightarrow>
             (case loadActionsFacts E (lp_actions lp) (False, H) of
                (Panic m, evs) \<Rightarrow> (Panic m, evs1 @ evs)
              | (Fatal m, evs) \<Rightarrow> (Fatal m, evs1 @ evs)
              | (Ok (need, H'), evs) \<Rightarrow>
                  if need then
                    (case loadFromSource L (setTypes (Some (NewPackage L (PkgPath p1) (PName p1))) p1) of
                       (e, p2, evs2) \<Rightarrow> (Ok (e, loaded lp p2, H'), evs1 @ evs @ evs2))
                  else (Ok (None, loaded lp p1, H'), evs1 @ evs))))"

fun isLoadFromSource :: "event \<Rightarrow> bool" where
  "isLoadFromSource (LoadFromSource p) = True"
| "isLoadFromSource e = False"

definition returnedError ::
  "(goError option \<times> loadingPackage \<times> action list) outcome \<times> event list \<Rightarrow> goError option" where
  "returnedError res = (case fst res of Ok (r, lp', H') \<Rightarrow> r | Panic m \<Rightarrow> None | Fatal m \<Rightarrow> None)"

lemma loadFromSource_event: "list_ex isLoadFromSource (snd (snd (loadFromSource L p)))"
  by (simp add: loadFromSource_def Let_def split: sum.splits prod.splits option.splits)

text \<open>
  Claim C6, as amended. For a package that is not initial (not \<^verbatim>\<open>unsafe\<close>, without
  type information yet) whose export data cannot be loaded, \<^verbatim>\<open>loadWithFacts\<close> runs a
  source load and returns an error in every case: the source load's own error when
  the source load fails, and otherwise the export data error wrapped with
  "could not load export data". The actions are not touched.
\<close>

theorem loadWithFacts_export_failure:
  assumes "PkgPath (lp_pkg lp) \<noteq> unsafePkgName" and "TypesInfo (lp_pkg lp) = None"
    and "\<not> isInitial lp" and "loadFromExportData L (lp_pkg lp) = (Some e, p1, evs1)"
  shows "\<exists>r lp' evs. loadWithFacts L E lp H = (Ok (Some r, lp', H), evs) \<and>
           list_ex isLoadFromSource evs \<and> wasLoaded lp' \<and>
           r = (case fst (loadFromSource L (setTypes (Some (NewPackage L (PkgPath p1) (PName p1))) p1)) of
                  Some srcErr \<Rightarrow> srcErr
                | None \<Rightarrow> ErrWrap ''could not load export data'' e)"
proof -
  define px where "px = setTypes (Some (NewPackage L (PkgPath p1) (PName p1))) p1"
  obtain r2 p2 evs2 where s: "loadFromSource L px = (r2, p2, evs2)"
    by (cases "loadFromSource L px") auto
  have ev: "list_ex isLoadFromSource evs2" using loadFromSource_event [of L px] s by simp
  show ?thesis
  proof (cases r2)
    case None
    then show ?thesis using assms s ev
      by (simp add: loadWithFacts_def Let_def px_def [symmetric] loaded_def)
  next
    case (Some srcErr)
    then show ?thesis using assms s ev
      by (simp add: loadWithFacts_def Let_def px_def [symmetric] loaded_def)
  qed
qed

abbreviation exFailingLoaders :: loaders where
  "exFailingLoaders \<equiv>
     \<lparr>parseFile = (\<lambda>f. Inl (ErrPath f ''no such file'')),
      typeCheck = (\<lambda>imp p. ([], None)),
      readExportData = (\<lambda>p. Inl (ErrOther ''bad export data'')),
      NewPackage = (\<lambda>path name. TypesPackage 7 path),
      typesUnsafe = TypesPackage 0 ''unsafe''\<rparr>"

abbreviation exDep :: package where
  "exDep \<equiv> Package ''dep'' ''dep'' ''dep'' [] ''dep.a'' [''dep.go''] None False [] None []"

abbreviation exDepLoading :: loadingPackage where
  "exDepLoading \<equiv> \<lparr>lp_pkg = exDep, isInitial = False, lp_actions = [], wasLoaded = False\<rparr>"

text \<open>
  The claim as stated fails when the source load fails too: the error returned is
  the parser's, not the export data error.
\<close>

theorem loadWithFacts_export_failure_counterexample:
  "\<not> isInitial exDepLoading \<and>
   fst (loadFromExportData exFailingLoaders (lp_pkg exDepLoading)) = Some (ErrOther ''bad export data'') \<and>
   returnedError (loadWithFacts exFailingLoaders exEnv exDepLoading []) =
     Some (ErrPath ''dep.go'' ''no such file'') \<and>
   returnedError (loadWithFacts exFailingLoaders exEnv exDepLoading []) \<noteq>
     Some (ErrWrap ''could not load export data'' (ErrOther ''bad export data''))"
  by code_simp

theorem loadWithFacts_export_failure_witness:
  "PkgPath (lp_pkg exDepLoading) \<noteq> unsafePkgName \<and> TypesInfo (lp_pkg exDepLoading) = None \<and>
   \<not> isInitial exDepLoading \<and>
   fst (loadFromExportData exFailingLoaders (lp_pkg exDepLoading)) = Some (ErrOther ''bad export data'') \<and>
   returnedError (loadWithFacts exFailingLoaders exEnv exDepLoading []) =
     Some (ErrPath ''dep.go'' ''no such file'') \<and>
   list_ex isLoadFromSource (snd (loadWithFacts exFailingLoaders exEnv exDepLoading [])) \<and>
   returnedError
     (loadWithFacts (exFailingLoaders\<lparr>parseFile := (\<lambda>f. Inr (AstFile f 1))\<rparr>) exEnv exDepLoading []) =
     Some (ErrWrap ''could not load export data'' (ErrOther ''bad export data''))"
proof -
  have h: "PkgPath (lp_pkg exDepLoading) \<noteq> unsafePkgName" "TypesInfo (lp_pkg exDepLoading) = None"
    "\<not> isInitial exDepLoading" by code_simp+
  have x: "loadFromExportData exFailingLoaders (lp_pkg exDepLoading) =
      (Some (ErrOther ''bad export data''),
       Package ''dep'' ''dep'' ''dep'' [] ''dep.a'' [''dep.go''] (Some (TypesPackage 7 ''dep'')) True [] None [],
       [LoadFromExportData ''dep''])"
    by code_simp
  have s: "fst (loadFromSource exFailingLoaders
        (setTypes (Some (NewPackage exFailingLoaders
            (PkgPath (Package ''dep'' ''dep'' ''dep'' [] ''dep.a'' [''dep.go''] (Some (TypesPackage 7 ''dep'')) True [] None []))
            (PName (Package ''dep'' ''dep'' ''dep'' [] ''dep.a'' [''dep.go''] (Some (TypesPackage 7 ''dep'')) True [] None []))))
          (Package ''dep'' ''dep'' ''dep'' [] ''dep.a'' [''dep.go''] (Some (TypesPackage 7 ''dep'')) True [] None []))) =
      Some (ErrPath ''dep.go'' ''no such file'')"
    by code_simp
  from loadWithFacts_export_failure [OF h x, of exEnv "[]"] s
  have a: "returnedError (loadWithFacts exFailingLoaders exEnv exDepLoading []) =
     Some (ErrPath ''dep.go'' ''no such file'') \<and>
     list_ex isLoadFromSource (snd (loadWithFacts exFailingLoaders exEnv exDepLoading []))"
    by (auto simp: returnedError_def)
  have b: "returnedError
     (loadWithFacts (exFailingLoaders\<lparr>parseFile := (\<lambda>f. Inr (AstFile f 1))\<rparr>) exEnv exDepLoading []) =
     Some (ErrWrap ''could not load export data'' (ErrOther ''bad export data''))"
    by code_simp
  show ?thesis using h x a b by simp
qed


section \<open>Diagnostic extraction (\<^verbatim>\<open>extractDiagnostics\<close>)\<close>





text \<open>
  \<^verbatim>\<open>visitAll\<close>, with the closure \<^verbatim>\<open>extract\<close> as a parameter (\<open>extractOne\<close> below) and the map
  \<^verbatim>\<open>extracted\<close> as the first component of the state. Every pointer of a Go action
  graph is allocated; an index outside the heap is passed over.
\<close>

function visitAll ::
  "action list \<Rightarrow> (action \<Rightarrow> 's \<Rightarrow> 's) \<Rightarrow> nat list \<Rightarrow> nat set \<times> 's \<Rightarrow> nat set \<times> 's"
where
  "visitAll H extract [] st = st"
| "visitAll H extract (act # acts) (extracted, s) =
     (if act < length H \<and> act \<notin> extracted
      then
        (case visitAll H extract (deps (H ! act)) (insert act extracted, s) of
           (extracted', s') \<Rightarrow> visitAll H extract acts (extracted', extract (H ! act) s'))
      else visitAll H extract acts (extracted, s))"
  by pat_completeness auto

lemma visitAll_dom_mono:
  "visitAll_dom (H, f, ps, (X, s)) \<Longrightarrow> X \<subseteq> fst (visitAll H f ps (X, s))"
proof (induction H f ps "(X, s)" arbitrary: X s rule: visitAll.pinduct)
  case (1 H f st)
  then show ?case by (simp add: visitAll.psimps)
next
  case (2 H f act acts X s)
  show ?case
  proof (cases "act < length H \<and> act \<notin> X")
    case True
    obtain X' s' where r: "visitAll H f (deps (H ! act)) (insert act X, s) = (X', s')"
      by (cases "visitAll H f (deps (H ! act)) (insert act X, s)")
    have a: "insert act X \<subseteq> X'" using "2.hyps"(2) [OF True] r by simp
    have b: "X' \<subseteq> fst (visitAll H f acts (X', f (H ! act) s'))"
      using "2.hyps"(3) [OF True r [symmetric]] by simp
    show ?thesis using True r a b "2.hyps"(1) by (auto simp: visitAll.psimps)
  next
    case False
    then show ?thesis using "2.hyps"(4) [OF False] "2.hyps"(1) by (auto simp: visitAll.psimps)
  qed
qed

termination visitAll
proof (relation "inv_image (less_than <*lex*> less_than)
    (\<lambda>x. case x of (H, f, ps, (X, s)) \<Rightarrow> (card ({..<length H} - X), length ps))", goal_cases)
  case 1
  show ?case by (intro wf_inv_image wf_lex_prod wf_less_than)
next
  case (2 H f act acts X s)
  then have "card ({..<length H} - insert act X) < card ({..<length H} - X)"
    by (intro psubset_card_mono) auto
  then show ?case by simp
next
  case (3 H f act acts X s X' s')
  have "X' = fst (visitAll H f (deps (H ! act)) (insert act X, s))" using 3 by (metis fst_conv)
  moreover have "visitAll_dom (H, f, deps (H ! act), insert act X, s)" using 3 by simp
  ultimately have "insert act X \<subseteq> X'" using visitAll_dom_mono by metis
  then have "card ({..<length H} - X') \<le> card ({..<length H} - X)"
    by (intro card_mono) auto
  then show ?case by auto
next
  case 4
  then show ?case by simp
qed

declare visitAll.simps [simp del]

definition wrapErr :: "string \<Rightarrow> string \<Rightarrow> string" where
  "wrapErr msg e = msg @ '': '' @ e"















lemma fold_app: "fold (\<lambda>a xs. xs @ [a]) ord acc = acc @ ord"
  by (induction ord arbitrary: acc) simp_all






definition reported :: "action \<Rightarrow> string list" where
  "reported act = (case err act of Some e \<Rightarrow> [wrapErr (Name (an act)) e] | None \<Rightarrow> [])"














end
